(* ===== verification/Prelude.thy ===== *)
theory Prelude
  imports Complex_Main "HOL-Library.List_Lexorder" "HOL-Library.Char_ord"
    "HOL-Library.Product_Lexorder" "HOL-Library.Sublist" "HOL-Library.Multiset"
begin

text \<open>
  The prelude of the gHALO development: the exceptions the Python tools raise, results that
  are either an exception or a value, sequencing and traversal of such results, the
  collections of simplification facts the component theories fill, and generic facts on
  lists.  Nothing in here is specific to one tool.
\<close>

section \<open>Exceptions and results\<close>

text \<open>
  The three exception classes the tools define (\<^verbatim>\<open>AnalysisError\<close> of
  \<^verbatim>\<open>ghalo_analyze.py\<close>, \<^verbatim>\<open>StallAnalysisError\<close> of
  \<^verbatim>\<open>analyze_iteration_stalls.py\<close> and \<^verbatim>\<open>RCCLVersionCompareError\<close>
  of \<^verbatim>\<open>compare_rccl_versions.py\<close>) carry the message the code builds; the
  exceptions of the Python runtime the code lets through carry none.
\<close>

datatype exn =
    AnalysisError string
  | StallAnalysisError string
  | RCCLVersionCompareError string
  | ValueError | TypeError | KeyError | AttributeError | IndexError
  | OverflowError | ZeroDivisionError | StatisticsError | OSError

type_synonym 'a res = "exn + 'a"

text \<open>Rewrite collections: the result combinators, and the text functions.\<close>

named_theorems res_simps \<open>rewriting of sequenced results\<close>
named_theorems text_simps \<open>rewriting of the text functions\<close>
named_theorems float_simps \<open>rewriting of binary64 operations\<close>

definition bindR :: "'a res \<Rightarrow> ('a \<Rightarrow> 'b res) \<Rightarrow> 'b res" where
  "bindR m f = (case m of Inl e \<Rightarrow> Inl e | Inr x \<Rightarrow> f x)"

lemma bindR_Inl [simp, res_simps]: "bindR (Inl e) f = Inl e"
  by (simp add: bindR_def)

lemma bindR_Inr [simp, res_simps]: "bindR (Inr x) f = f x"
  by (simp add: bindR_def)

lemma bindR_eq_Inr_iff [res_simps]:
  "bindR m f = Inr y \<longleftrightarrow> (\<exists>x. m = Inr x \<and> f x = Inr y)"
  by (cases m) simp_all

lemma bindR_eq_Inl_iff [res_simps]:
  "bindR m f = Inl e \<longleftrightarrow> m = Inl e \<or> (\<exists>x. m = Inr x \<and> f x = Inl e)"
  by (cases m) simp_all

lemma bindR_cong [fundef_cong]:
  "m = m' \<Longrightarrow> (\<And>x. m' = Inr x \<Longrightarrow> f x = g x) \<Longrightarrow> bindR m f = bindR m' g"
  by (cases m') simp_all

definition guardR :: "bool \<Rightarrow> exn \<Rightarrow> unit res" where
  "guardR b e = (if b then Inr () else Inl e)"

lemma guardR_simps [simp, res_simps]:
  "guardR True e = Inr ()" "guardR False e = Inl e"
  "guardR b e = Inr u \<longleftrightarrow> b" "guardR b e = Inl e' \<longleftrightarrow> \<not> b \<and> e' = e"
  by (auto simp: guardR_def)

text \<open>A list comprehension whose element expression may raise: the first raise wins.\<close>

fun traverse :: "('a \<Rightarrow> 'b res) \<Rightarrow> 'a list \<Rightarrow> 'b list res" where
  "traverse f [] = Inr []"
| "traverse f (x # xs) = bindR (f x) (\<lambda>y. bindR (traverse f xs) (\<lambda>ys. Inr (y # ys)))"

lemma traverse_cong [fundef_cong]:
  "xs = ys \<Longrightarrow> (\<And>x. x \<in> set ys \<Longrightarrow> f x = g x) \<Longrightarrow> traverse f xs = traverse g ys"
  by (induction ys arbitrary: xs) (auto intro!: bindR_cong)

lemma traverse_Inr_iff:
  "traverse f xs = Inr ys \<longleftrightarrow> list_all2 (\<lambda>x y. f x = Inr y) xs ys"
  by (induction xs arbitrary: ys)
    (auto simp: bindR_eq_Inr_iff list_all2_Cons1)

lemma traverse_length: "traverse f xs = Inr ys \<Longrightarrow> length ys = length xs"
  by (auto simp: traverse_Inr_iff dest: list_all2_lengthD)

lemma traverse_total:
  "(\<And>x. x \<in> set xs \<Longrightarrow> f x = Inr (g x)) \<Longrightarrow> traverse f xs = Inr (map g xs)"
  by (induction xs) auto

lemma traverse_set:
  "traverse f xs = Inr ys \<Longrightarrow> y \<in> set ys \<Longrightarrow> \<exists>x \<in> set xs. f x = Inr y"
  by (auto simp: traverse_Inr_iff list_all2_conv_all_nth in_set_conv_nth intro: nth_mem
      intro!: bexI[of _ "xs ! i" for i])

lemma traverse_zip_mem:
  "traverse f xs = Inr ks \<Longrightarrow> (k, x) \<in> set (zip ks xs) \<Longrightarrow> f x = Inr k \<and> x \<in> set xs"
  by (auto simp: traverse_Inr_iff list_all2_conv_all_nth in_set_zip)

lemma traverse_Inl:
  "traverse f xs = Inl e \<Longrightarrow> \<exists>x \<in> set xs. f x = Inl e"
  by (induction xs) (auto simp: bindR_eq_Inl_iff)

text \<open>A \<^verbatim>\<open>for\<close> loop over a state whose body may raise.\<close>

fun foldR :: "('s \<Rightarrow> 'a \<Rightarrow> 's res) \<Rightarrow> 's \<Rightarrow> 'a list \<Rightarrow> 's res" where
  "foldR f s [] = Inr s"
| "foldR f s (x # xs) = bindR (f s x) (\<lambda>s'. foldR f s' xs)"

lemma foldR_cong [fundef_cong]:
  "s = s' \<Longrightarrow> xs = ys \<Longrightarrow> (\<And>s x. x \<in> set ys \<Longrightarrow> f s x = g s x) \<Longrightarrow> foldR f s xs = foldR g s' ys"
  by (induction ys arbitrary: xs s s') (auto intro!: bindR_cong)

lemma foldR_append:
  "foldR f s (xs @ ys) = bindR (foldR f s xs) (\<lambda>t. foldR f t ys)"
  by (induction xs arbitrary: s) (auto simp: bindR_def split: sum.splits)

section \<open>Lists\<close>

text \<open>Python's \<^verbatim>\<open>max(xs, key=f)\<close> keeps the first of several maximal elements.\<close>

fun max_by :: "('a \<Rightarrow> 'a \<Rightarrow> bool) \<Rightarrow> 'a \<Rightarrow> 'a list \<Rightarrow> 'a" where
  "max_by lt m [] = m"
| "max_by lt m (x # xs) = max_by lt (if lt m x then x else m) xs"

lemma max_by_mem: "max_by lt m xs \<in> set (m # xs)"
proof (induction xs arbitrary: m)
  case (Cons x xs)
  then show ?case using Cons.IH[of m] Cons.IH[of x] by auto
qed simp

lemma max_by_bound:
  assumes "\<And>a b c. \<not> lt b a \<Longrightarrow> \<not> lt c b \<Longrightarrow> \<not> lt c a" "\<And>a. \<not> lt a a"
    "\<And>a b. lt a b \<Longrightarrow> \<not> lt b a"
  shows "\<forall>x \<in> set (m # xs). \<not> lt (max_by lt m xs) x"
proof (induction xs arbitrary: m)
  case Nil
  then show ?case using assms(2) by simp
next
  case (Cons y ys)
  let ?r = "max_by lt (if lt m y then y else m) ys"
  have r: "\<not> lt ?r (if lt m y then y else m)" "\<forall>x \<in> set ys. \<not> lt ?r x" using Cons[of "if lt m y then y else m"] by auto
  have "\<not> lt ?r m \<and> \<not> lt ?r y"
  proof (cases "lt m y")
    case True
    then show ?thesis using r(1) assms(1)[of y m ?r] assms(3)[of m y] by auto
  next
    case False
    then show ?thesis using r(1) assms(1)[of m y ?r] by auto
  qed
  then show ?case using r(2) by simp
qed

lemma max_by_cong:
  "(\<And>a b. a \<in> set (m # xs) \<Longrightarrow> b \<in> set (m # xs) \<Longrightarrow> lt a b = lt' a b) \<Longrightarrow> max_by lt m xs = max_by lt' m xs"
proof (induction xs arbitrary: m)
  case (Cons y ys)
  have "lt m y = lt' m y" by (rule Cons.prems) simp_all
  moreover have "max_by lt (if lt' m y then y else m) ys = max_by lt' (if lt' m y then y else m) ys"
    by (rule Cons.IH) (rule Cons.prems; auto)
  ultimately show ?case by simp
qed simp

text \<open>\<^verbatim>\<open>xs[i]\<close>: a negative index counts from the end.\<close>

definition py_index :: "'a list \<Rightarrow> int \<Rightarrow> 'a res" where
  "py_index xs i = (if 0 \<le> i \<and> i < int (length xs) then Inr (xs ! nat i)
     else if i < 0 \<and> - int (length xs) \<le> i then Inr (xs ! nat (i + int (length xs)))
     else Inl IndexError)"

lemma py_index_nat: "i < length xs \<Longrightarrow> py_index xs (int i) = Inr (xs ! i)"
  by (simp add: py_index_def)

lemma map_eq_replicate_iff: "map f xs = replicate (length xs) c \<longleftrightarrow> (\<forall>x \<in> set xs. f x = c)"
  by (induction xs) auto

section \<open>Sorting by a key that may raise\<close>

text \<open>Python's \<^verbatim>\<open>sorted(xs, key=f)\<close>: every key is computed first, and the sort is
  stable.\<close>

definition sort_by :: "('a \<Rightarrow> 'k::linorder res) \<Rightarrow> 'a list \<Rightarrow> 'a list res" where
  "sort_by f xs = bindR (traverse f xs) (\<lambda>ks. Inr (map snd (sort_key fst (zip ks xs))))"

lemma insort_key_map: "insort_key f (h x) (map h xs) = map h (insort_key (\<lambda>y. f (h y)) x xs)"
  by (induction xs) auto

lemma sort_key_map: "sort_key f (map h xs) = map h (sort_key (\<lambda>y. f (h y)) xs)"
  by (induction xs) (simp_all add: insort_key_map)

lemma sort_by_total:
  assumes "\<And>x. x \<in> set xs \<Longrightarrow> f x = Inr (g x)"
  shows "sort_by f xs = Inr (sort_key g xs)"
proof -
  have z: "zip (map g xs) xs = map (\<lambda>x. (g x, x)) xs" by (induction xs) auto
  show ?thesis using traverse_total[of xs f g] assms
    by (simp add: sort_by_def z sort_key_map comp_def)
qed

lemma traverse_keys: "traverse f xs = Inr ks \<Longrightarrow> x \<in> set xs \<Longrightarrow> f x = Inr (projr (f x))"
  by (induction xs arbitrary: ks) (auto simp: bindR_eq_Inr_iff)

lemma sort_by_Inr:
  assumes "sort_by f xs = Inr ys"
  shows "ys = sort_key (\<lambda>x. projr (f x)) xs" and "\<And>x. x \<in> set xs \<Longrightarrow> f x = Inr (projr (f x))"
proof -
  obtain ks where "traverse f xs = Inr ks" using assms by (auto simp: sort_by_def bindR_eq_Inr_iff)
  then show all: "f x = Inr (projr (f x))" if "x \<in> set xs" for x
    using that by (rule traverse_keys)
  have "sort_by f xs = Inr (sort_key (\<lambda>x. projr (f x)) xs)" by (rule sort_by_total) (rule all)
  then show "ys = sort_key (\<lambda>x. projr (f x)) xs" using assms by simp
qed

text \<open>What the output order promises: nothing is lost or invented, keys ascend, equal keys keep
  the order they came in, and sorting a sorted list changes nothing.\<close>

lemma sort_by_mset: "sort_by f xs = Inr ys \<Longrightarrow> mset ys = mset xs"
  by (auto dest: sort_by_Inr(1))

lemma sort_by_set: "sort_by f xs = Inr ys \<Longrightarrow> set ys = set xs"
  by (auto dest: sort_by_Inr(1))

lemma sort_by_length: "sort_by f xs = Inr ys \<Longrightarrow> length ys = length xs"
  by (auto dest: sort_by_Inr(1))

lemma sort_by_keys:
  assumes "sort_by f xs = Inr ys"
  shows "\<exists>ks. traverse f ys = Inr ks \<and> sorted ks"
proof -
  have "traverse f ys = Inr (map (\<lambda>x. projr (f x)) ys)"
    by (rule traverse_total) (use sort_by_Inr(2)[OF assms] sort_by_set[OF assms] in auto)
  then show ?thesis using sort_by_Inr(1)[OF assms] by auto
qed

lemma sort_by_stable: "sort_by f xs = Inr ys \<Longrightarrow> filter (\<lambda>x. f x = Inr k) ys = filter (\<lambda>x. f x = Inr k) xs"
proof -
  assume s: "sort_by f xs = Inr ys"
  let ?g = "\<lambda>x. projr (f x)"
  have "filter (\<lambda>x. f x = Inr k) zs = filter (\<lambda>x. ?g x = k) zs" if "set zs \<subseteq> set xs" for zs
    by (rule filter_cong[OF refl]) (use sort_by_Inr(2)[OF s] that in force)
  from this[of xs] this[of ys] show ?thesis
    using sort_by_Inr(1)[OF s] by (simp add: sort_key_stable)
qed

lemma sort_by_idem: "sort_by f xs = Inr ys \<Longrightarrow> sort_by f ys = Inr ys"
proof -
  assume s: "sort_by f xs = Inr ys"
  have "sort_by f ys = Inr (sort_key (\<lambda>x. projr (f x)) ys)"
    by (rule sort_by_total) (use sort_by_Inr(2)[OF s] sort_by_set[OF s] in auto)
  then show ?thesis using sort_by_Inr(1)[OF s] by (simp add: sort_key_id_if_sorted)
qed

section \<open>Lists in step\<close>

lemma list_all2_in1: "list_all2 P xs ys \<Longrightarrow> x \<in> set xs \<Longrightarrow> \<exists>y \<in> set ys. P x y"
  by (induction rule: list_all2_induct) auto

lemma list_all2_in2: "list_all2 P xs ys \<Longrightarrow> y \<in> set ys \<Longrightarrow> \<exists>x \<in> set xs. P x y"
  by (induction rule: list_all2_induct) auto

lemma not_isl_Inr: "\<not> isl m \<Longrightarrow> m = Inr (projr m)"
  by (cases m) auto

end
