(* ===== verification/PyText.thy ===== *)
theory PyText
  imports Prelude
begin

text \<open>
  The Python text operations the tools use, on strings whose code points are below 256 (an
  Isabelle \<open>char\<close> is one such code point): stripping, case, splitting, integer text, and the
  character classes of the regular expressions.  The code-point sets are those of the
  \<^verbatim>\<open>str\<close> methods on that range.
\<close>

section \<open>Character classes\<close>

definition code :: "char \<Rightarrow> nat" where
  "code c = of_char c"

definition is_space :: "char \<Rightarrow> bool" where
  "is_space c \<longleftrightarrow> (9 \<le> code c \<and> code c \<le> 13) \<or> (28 \<le> code c \<and> code c \<le> 32)
     \<or> code c = 133 \<or> code c = 160"

text \<open>\<^verbatim>\<open>str.isdigit\<close> accepts the superscripts two, three and one; \<^verbatim>\<open>\d\<close> and
  \<^verbatim>\<open>int\<close> do not.\<close>

definition is_decimal :: "char \<Rightarrow> bool" where
  "is_decimal c \<longleftrightarrow> 48 \<le> code c \<and> code c \<le> 57"

definition isdigit :: "char \<Rightarrow> bool" where
  "isdigit c \<longleftrightarrow> is_decimal c \<or> code c = 178 \<or> code c = 179 \<or> code c = 185"

definition is_upper_ascii :: "char \<Rightarrow> bool" where
  "is_upper_ascii c \<longleftrightarrow> 65 \<le> code c \<and> code c \<le> 90"

definition is_lower_ascii :: "char \<Rightarrow> bool" where
  "is_lower_ascii c \<longleftrightarrow> 97 \<le> code c \<and> code c \<le> 122"

definition is_ascii_alnum :: "char \<Rightarrow> bool" where
  "is_ascii_alnum c \<longleftrightarrow> is_decimal c \<or> is_upper_ascii c \<or> is_lower_ascii c"

text \<open>\<^verbatim>\<open>\w\<close> of the regular expressions.\<close>

definition is_word :: "char \<Rightarrow> bool" where
  "is_word c \<longleftrightarrow> is_ascii_alnum c \<or> code c = 95
     \<or> code c \<in> {170, 178, 179, 181, 185, 186, 188, 189, 190}
     \<or> (192 \<le> code c \<and> code c \<noteq> 215 \<and> code c \<noteq> 247)"

definition lower_char :: "char \<Rightarrow> char" where
  "lower_char c = (if is_upper_ascii c \<or> (192 \<le> code c \<and> code c \<le> 222 \<and> code c \<noteq> 215)
                   then char_of (code c + 32) else c)"

definition lower :: "string \<Rightarrow> string" where
  "lower s = map lower_char s"

lemmas char_class_defs =
  code_def is_space_def is_decimal_def isdigit_def is_upper_ascii_def is_lower_ascii_def
  is_ascii_alnum_def is_word_def

lemma code_less: "code c < 256"
  by (simp add: code_def)

lemma code_lower_char:
  "code (lower_char c) = (if is_upper_ascii c \<or> (192 \<le> code c \<and> code c \<le> 222 \<and> code c \<noteq> 215)
                          then code c + 32 else code c)"
  by (auto simp: lower_char_def code_def is_upper_ascii_def)

lemma lower_char_idem [simp]: "lower_char (lower_char c) = lower_char c"
proof -
  have "\<not> is_upper_ascii (lower_char c)"
    "\<not> (192 \<le> code (lower_char c) \<and> code (lower_char c) \<le> 222 \<and> code (lower_char c) \<noteq> 215)"
    using code_less[of c] by (auto simp: code_lower_char is_upper_ascii_def)
  then show ?thesis unfolding lower_char_def[of "lower_char c"] by (simp only: if_False disj_not1 simp_thms)
qed

lemma lower_idem [simp, text_simps]: "lower (lower s) = lower s"
  by (simp add: lower_def)

lemma length_lower [simp, text_simps]: "length (lower s) = length s"
  by (simp add: lower_def)

lemma lower_Nil_iff [simp, text_simps]: "lower s = [] \<longleftrightarrow> s = []"
  by (simp add: lower_def)

section \<open>Stripping\<close>

definition strip_where :: "(char \<Rightarrow> bool) \<Rightarrow> string \<Rightarrow> string" where
  "strip_where p s = rev (dropWhile p (rev (dropWhile p s)))"

definition strip :: "string \<Rightarrow> string" where
  "strip s = strip_where is_space s"

definition strip_chars :: "string \<Rightarrow> string \<Rightarrow> string" where
  "strip_chars cs s = strip_where (\<lambda>c. c \<in> set cs) s"

text \<open>A string both of whose ends a predicate rejects.\<close>

definition bare :: "(char \<Rightarrow> bool) \<Rightarrow> string \<Rightarrow> bool" where
  "bare p s \<longleftrightarrow> (s \<noteq> [] \<longrightarrow> \<not> p (hd s) \<and> \<not> p (last s))"

lemma dropWhile_id: "s = [] \<or> \<not> p (hd s) \<Longrightarrow> dropWhile p s = s"
  by (cases s) auto

lemma strip_where_bare: "bare p (strip_where p s)"
proof (cases "strip_where p s = []")
  case False
  let ?t = "dropWhile p s" and ?r = "dropWhile p (rev (dropWhile p s))"
  have r: "?r \<noteq> []" using False by (simp add: strip_where_def)
  then have t: "?t \<noteq> []" by (metis dropWhile.simps(1) rev.simps(1))
  have "\<not> p (hd ?r)" using r by (metis hd_dropWhile)
  moreover have "last ?r = hd ?t"
  proof -
    have "suffix ?r (rev ?t)" by (rule suffix_dropWhile)
    then show ?thesis using r t by (metis last_appendR last_rev suffix_def)
  qed
  moreover have "\<not> p (hd ?t)" using t by (metis hd_dropWhile)
  ultimately show ?thesis using r by (simp add: bare_def strip_where_def hd_rev last_rev)
qed (simp add: bare_def)

lemma strip_where_id: "bare p s \<Longrightarrow> strip_where p s = s"
  by (cases "s = []") (auto simp: strip_where_def bare_def dropWhile_id hd_rev)

lemma strip_where_idem [simp]: "strip_where p (strip_where p s) = strip_where p s"
  by (rule strip_where_id[OF strip_where_bare])

lemma set_strip_where: "set (strip_where p s) \<subseteq> set s"
  unfolding strip_where_def by (metis set_dropWhileD set_rev subsetI)

lemma strip_idem [simp, text_simps]: "strip (strip s) = strip s"
  by (simp add: strip_def)

lemma strip_bare: "bare is_space (strip s)"
  by (simp add: strip_def strip_where_bare)

lemma strip_id: "bare is_space s \<Longrightarrow> strip s = s"
  by (simp add: strip_def strip_where_id)

lemma bare_all: "(\<And>c. c \<in> set s \<Longrightarrow> \<not> p c) \<Longrightarrow> bare p s"
  by (auto simp: bare_def)

section \<open>Splitting and searching\<close>

text \<open>\<^verbatim>\<open>s.split(sep, 1)\<close> when \<^verbatim>\<open>sep\<close> occurs, None when it does not.\<close>

fun split_once :: "char \<Rightarrow> string \<Rightarrow> (string \<times> string) option" where
  "split_once sep [] = None"
| "split_once sep (c # cs) =
     (if c = sep then Some ([], cs) else map_option (\<lambda>(k, v). (c # k, v)) (split_once sep cs))"

lemma split_once_Some_iff:
  "split_once sep s = Some (k, v) \<longleftrightarrow> s = k @ sep # v \<and> sep \<notin> set k"
proof (induction s arbitrary: k)
  case (Cons c cs)
  then show ?case by (cases k) auto
qed simp

lemma split_once_None_iff: "split_once sep s = None \<longleftrightarrow> sep \<notin> set s"
  by (induction s) auto

text \<open>\<^verbatim>\<open>s.split(sep)\<close> for a one-character separator: one piece more than separators.\<close>

fun split_on :: "char \<Rightarrow> string \<Rightarrow> string list" where
  "split_on sep [] = [[]]"
| "split_on sep (c # cs) =
     (if c = sep then [] # split_on sep cs
      else (case split_on sep cs of p # ps \<Rightarrow> (c # p) # ps | [] \<Rightarrow> [[c]]))"

lemma split_on_not_Nil [simp]: "split_on sep s \<noteq> []"
  by (cases s) (auto split: list.splits)

text \<open>\<^verbatim>\<open>sep.join(parts)\<close>.\<close>

fun join :: "string \<Rightarrow> string list \<Rightarrow> string" where
  "join sep [] = []"
| "join sep [x] = x"
| "join sep (x # y # ys) = x @ sep @ join sep (y # ys)"

lemma join_split_on: "join [sep] (split_on sep s) = s"
proof (induction s)
  case (Cons c cs)
  obtain p ps where p: "split_on sep cs = p # ps"
    by (metis list.exhaust split_on_not_Nil)
  then show ?case using Cons by (cases ps) auto
qed simp

lemma split_on_join:
  "xs \<noteq> [] \<Longrightarrow> (\<And>x. x \<in> set xs \<Longrightarrow> sep \<notin> set x) \<Longrightarrow> split_on sep (join [sep] xs) = xs"
proof (induction "[sep]" xs rule: join.induct)
  case (2 x)
  then have "sep \<notin> set x" by simp
  then show ?case by (induction x) auto
next
  case (3 x y ys)
  have ih: "split_on sep (join [sep] (y # ys)) = y # ys" by (rule 3(1)) (use 3 in auto)
  have "sep \<notin> set x" using 3 by simp
  then have "split_on sep (x @ sep # join [sep] (y # ys)) = x # split_on sep (join [sep] (y # ys))"
    by (induction x) auto
  then show ?case using ih by simp
qed simp

text \<open>\<^verbatim>\<open>"\n".join(lines) + "\n"\<close>.\<close>

definition unlines :: "string list \<Rightarrow> string" where
  "unlines ls = join [CHR 0x0A] ls @ [CHR 0x0A]"

text \<open>\<^verbatim>\<open>s.split()\<close>: the maximal runs of characters that are not white space.\<close>

fun words_from :: "string \<Rightarrow> string \<Rightarrow> string list" where
  "words_from cur [] = (if cur = [] then [] else [rev cur])"
| "words_from cur (c # cs) =
     (if is_space c then (if cur = [] then words_from [] cs else rev cur # words_from [] cs)
      else words_from (c # cur) cs)"

definition split_words :: "string \<Rightarrow> string list" where
  "split_words s = words_from [] s"

lemma words_from_no_space:
  "\<forall>c \<in> set cur. \<not> is_space c \<Longrightarrow> w \<in> set (words_from cur s)
   \<Longrightarrow> w \<noteq> [] \<and> (\<forall>c \<in> set w. \<not> is_space c)"
proof (induction cur s rule: words_from.induct)
  case (1 cur)
  then show ?case by (cases "cur = []") simp_all
next
  case (2 cur c cs)
  show ?case
  proof (cases "is_space c")
    case True
    then have "w = rev cur \<and> cur \<noteq> [] \<or> w \<in> set (words_from [] cs)"
      using "2.prems"(2) by (cases "cur = []") simp_all
    then show ?thesis
    proof
      assume "w = rev cur \<and> cur \<noteq> []"
      then show ?thesis using "2.prems"(1) by simp
    next
      assume w: "w \<in> set (words_from [] cs)"
      show ?thesis
      proof (cases "cur = []")
        case c: True
        show ?thesis by (rule "2.IH"(1)[OF True c _ w]) simp
      next
        case c: False
        show ?thesis by (rule "2.IH"(2)[OF True c _ w]) simp
      qed
    qed
  next
    case False
    show ?thesis by (rule "2.IH"(3)[OF False]) (use "2.prems" False in simp_all)
  qed
qed

text \<open>\<^verbatim>\<open>s.splitlines()\<close>, with the line boundaries of \<^verbatim>\<open>str\<close>.\<close>

definition is_linebreak :: "char \<Rightarrow> bool" where
  "is_linebreak c \<longleftrightarrow> code c \<in> {10, 11, 12, 13, 28, 29, 30, 133}"

abbreviation (input) LF :: char where "LF \<equiv> CHR 0x0A"
abbreviation (input) CR :: char where "CR \<equiv> CHR 0x0D"

fun lines_from :: "string \<Rightarrow> string \<Rightarrow> string list" where
  "lines_from cur [] = (if cur = [] then [] else [rev cur])"
| "lines_from cur (c # cs) =
     (if c = CR then rev cur # (case cs of d # ds \<Rightarrow> if d = LF then lines_from [] ds
                                                    else lines_from [] cs | [] \<Rightarrow> [])
      else if is_linebreak c then rev cur # lines_from [] cs
      else lines_from (c # cur) cs)"

definition splitlines :: "string \<Rightarrow> string list" where
  "splitlines s = lines_from [] s"

text \<open>Reading in text mode turns carriage returns into newlines.\<close>

fun universal_newlines :: "string \<Rightarrow> string" where
  "universal_newlines [] = []"
| "universal_newlines (c # cs) =
     (if c = CR then LF # (case cs of d # ds \<Rightarrow> if d = LF then universal_newlines ds
                                             else universal_newlines cs | [] \<Rightarrow> [])
      else c # universal_newlines cs)"

definition replace_char :: "char \<Rightarrow> char \<Rightarrow> string \<Rightarrow> string" where
  "replace_char a b s = map (\<lambda>c. if c = a then b else c) s"

text \<open>\<^verbatim>\<open>s.removeprefix(p)\<close>.\<close>

definition removeprefix :: "string \<Rightarrow> string \<Rightarrow> string" where
  "removeprefix p s = (if prefix p s then drop (length p) s else s)"

lemma removeprefix_length: "length (removeprefix p s) \<le> length s"
  by (simp add: removeprefix_def)

lemma set_removeprefix: "set (removeprefix p s) \<subseteq> set s"
  by (auto simp: removeprefix_def dest: in_set_dropD)

text \<open>Replacing every maximal run of rejected characters by one character
  (\<^verbatim>\<open>re.sub(r"[^...]+", ch, s)\<close>).\<close>

function squeeze :: "(char \<Rightarrow> bool) \<Rightarrow> char \<Rightarrow> string \<Rightarrow> string" where
  "squeeze ok ch [] = []"
| "squeeze ok ch (c # cs) =
     (if ok c then c # squeeze ok ch cs else ch # squeeze ok ch (dropWhile (\<lambda>d. \<not> ok d) cs))"
  by pat_completeness auto
termination
  by (relation "measure (\<lambda>(ok, ch, s). length s)") (auto simp: le_imp_less_Suc length_dropWhile_le)

lemma squeeze_ok: "ok ch \<Longrightarrow> c \<in> set (squeeze ok ch s) \<Longrightarrow> ok c"
  by (induction ok ch s rule: squeeze.induct) (auto split: if_splits)

lemma squeeze_id: "(\<And>c. c \<in> set s \<Longrightarrow> ok c) \<Longrightarrow> squeeze ok ch s = s"
  by (induction s) auto

end
