(* ===== verification/PyPath.thy ===== *)
theory PyPath
  imports PyText "HOL-Library.AList"
begin

text \<open>
  Pure POSIX paths (\<^verbatim>\<open>pathlib\<close>) as lists of parts, and the file system the tools
  read and write as a finite association of paths to nodes.  \<^verbatim>\<open>Path.resolve\<close>,
  which depends on links and on the working directory, is a parameter where it is used.
\<close>

type_synonym path = "string list"

definition root_parts :: "string \<Rightarrow> string list" where
  "root_parts s = (if prefix ''//'' s \<and> \<not> prefix ''///'' s then [''//'']
                   else if prefix ''/'' s then [''/''] else [])"

definition Path :: "string \<Rightarrow> path" where
  "Path s = root_parts s @ filter (\<lambda>p. p \<noteq> [] \<and> p \<noteq> ''.'') (split_on (CHR ''/'') s)"

definition is_root :: "string \<Rightarrow> bool" where
  "is_root p \<longleftrightarrow> p = ''/'' \<or> p = ''//''"

definition str_path :: "path \<Rightarrow> string" where
  "str_path p = (case p of [] \<Rightarrow> ''.''
     | x # xs \<Rightarrow> if is_root x then x @ join ''/'' xs else join ''/'' p)"

definition path_name :: "path \<Rightarrow> string" where
  "path_name p = (if p = [] \<or> (length p = 1 \<and> is_root (hd p)) then [] else last p)"

definition path_parent :: "path \<Rightarrow> path" where
  "path_parent p = (if p = [] \<or> (length p = 1 \<and> is_root (hd p)) then p else butlast p)"

text \<open>\<^verbatim>\<open>p.suffix\<close>: from the last dot, when it is neither the first nor the last
  character of the name.\<close>

definition path_suffix :: "path \<Rightarrow> string" where
  "path_suffix p = (let n = path_name p; ext = rev (takeWhile (\<lambda>c. c \<noteq> CHR ''.'') (rev n)) in
     if CHR ''.'' \<in> set n \<and> ext \<noteq> [] \<and> length ext + 1 < length n then CHR ''.'' # ext else [])"

definition child :: "path \<Rightarrow> string \<Rightarrow> path" where
  "child p name = (if root_parts name \<noteq> [] then Path name else p @ Path name)"

text \<open>The index of the first part equal to a name (\<^verbatim>\<open>parts.index\<close>).\<close>

fun index_of :: "'a \<Rightarrow> 'a list \<Rightarrow> nat option" where
  "index_of x [] = None"
| "index_of x (y # ys) = (if y = x then Some 0 else map_option Suc (index_of x ys))"

lemma index_of_None_iff: "index_of x xs = None \<longleftrightarrow> x \<notin> set xs"
  by (induction xs) auto

lemma index_of_Some: "index_of x xs = Some i \<Longrightarrow> i < length xs \<and> xs ! i = x \<and> x \<notin> set (take i xs)"
  by (induction xs arbitrary: i) (auto split: if_splits)

section \<open>Files\<close>

datatype fnode = Dir | File string

type_synonym fs = "(path \<times> fnode) list"

definition fs_exists :: "fs \<Rightarrow> path \<Rightarrow> bool" where
  "fs_exists fs p \<longleftrightarrow> map_of fs p \<noteq> None"

definition fs_is_dir :: "fs \<Rightarrow> path \<Rightarrow> bool" where
  "fs_is_dir fs p \<longleftrightarrow> map_of fs p = Some Dir"

definition fs_is_file :: "fs \<Rightarrow> path \<Rightarrow> bool" where
  "fs_is_file fs p \<longleftrightarrow> (case map_of fs p of Some (File _) \<Rightarrow> True | _ \<Rightarrow> False)"

text \<open>\<^verbatim>\<open>read_text\<close> of a regular file, and the raw text of \<^verbatim>\<open>open(newline="")\<close>;
  anything else raises.\<close>

definition fs_raw :: "fs \<Rightarrow> path \<Rightarrow> string res" where
  "fs_raw fs p = (case map_of fs p of Some (File t) \<Rightarrow> Inr t | _ \<Rightarrow> Inl OSError)"

definition fs_text :: "fs \<Rightarrow> path \<Rightarrow> string res" where
  "fs_text fs p = bindR (fs_raw fs p) (\<lambda>t. Inr (universal_newlines t))"

text \<open>\<^verbatim>\<open>p.rglob(name)\<close> and \<^verbatim>\<open>p.iterdir()\<close>.\<close>

definition fs_rglob :: "fs \<Rightarrow> path \<Rightarrow> string \<Rightarrow> path list" where
  "fs_rglob fs p name = filter (\<lambda>q. strict_prefix p q \<and> path_name q = name) (map fst fs)"

definition fs_iterdir :: "fs \<Rightarrow> path \<Rightarrow> path list" where
  "fs_iterdir fs p = filter (\<lambda>q. strict_prefix p q \<and> length q = Suc (length p)) (map fst fs)"

lemma fs_is_dir_exists: "fs_is_dir fs p \<Longrightarrow> fs_exists fs p"
  by (simp add: fs_is_dir_def fs_exists_def)

lemma fs_exists_iff: "fs_exists fs p \<longleftrightarrow> p \<in> set (map fst fs)"
  by (simp add: fs_exists_def map_of_eq_None_iff)

section \<open>Writing\<close>

text \<open>The working directory, the path without parts, always exists.\<close>

definition fs_has_dir :: "fs \<Rightarrow> path \<Rightarrow> bool" where
  "fs_has_dir fs p \<longleftrightarrow> p = [] \<or> (length p = 1 \<and> is_root (hd p)) \<or> fs_is_dir fs p"

definition fs_write :: "fs \<Rightarrow> path \<Rightarrow> string \<Rightarrow> fs res" where
  "fs_write fs p t = (if fs_has_dir fs p \<or> \<not> fs_has_dir fs (path_parent p) then Inl OSError
     else Inr (AList.update p (File t) fs))"

definition make_dir :: "fs \<Rightarrow> path \<Rightarrow> fs res" where
  "make_dir fs p = (if fs_has_dir fs p then Inr fs
     else if fs_exists fs p then Inl OSError else Inr (AList.update p Dir fs))"

text \<open>\<^verbatim>\<open>p.mkdir(parents=True, exist_ok=True)\<close>: every ancestor from the top.\<close>

definition fs_mkdirs :: "fs \<Rightarrow> path \<Rightarrow> fs res" where
  "fs_mkdirs fs p = foldR make_dir fs (map (\<lambda>n. take n p) [1..<Suc (length p)])"

text \<open>Every entry but the top ones lies in a directory.\<close>

lemma map_of_AList: "map_of (AList.update k v d) k' = (if k' = k then Some v else map_of d k')"
  by (simp add: update_conv)

lemma fs_write_lookup:
  "fs_write fs p t = Inr fs' \<Longrightarrow> map_of fs' q = (if q = p then Some (File t) else map_of fs q)"
  by (auto simp: fs_write_def map_of_AList split: if_splits)

lemma fs_write_read: "fs_write fs p t = Inr fs' \<Longrightarrow> fs_raw fs' p = Inr t"
  by (simp add: fs_raw_def fs_write_lookup)

lemma fs_write_other: "fs_write fs p t = Inr fs' \<Longrightarrow> q \<noteq> p \<Longrightarrow> map_of fs' q = map_of fs q"
  by (simp add: fs_write_lookup)

text \<open>Making directories changes no file.\<close>

lemma make_dir_keeps: "make_dir fs p = Inr fs' \<Longrightarrow> map_of fs q = Some n \<Longrightarrow> map_of fs' q = Some n"
  by (auto simp: make_dir_def fs_exists_def map_of_AList split: if_splits)

lemma make_dirs_keep:
  "foldR make_dir fs ps = Inr fs' \<Longrightarrow> map_of fs q = Some n \<Longrightarrow> map_of fs' q = Some n"
  by (induction ps arbitrary: fs) (auto simp: bindR_eq_Inr_iff dest: make_dir_keeps)

lemma make_dir_new: "make_dir fs p = Inr fs' \<Longrightarrow> map_of fs q = None \<Longrightarrow> map_of fs' q \<in> {None, Some Dir}"
  by (auto simp: make_dir_def map_of_AList split: if_splits)

lemma make_dirs_new:
  "foldR make_dir fs ps = Inr fs' \<Longrightarrow> map_of fs q = None \<Longrightarrow> map_of fs' q \<in> {None, Some Dir}"
proof (induction ps arbitrary: fs)
  case (Cons p ps)
  then obtain fs1 where f: "make_dir fs p = Inr fs1" "foldR make_dir fs1 ps = Inr fs'"
    by (auto simp: bindR_eq_Inr_iff)
  from make_dir_new[OF f(1) Cons.prems(2)] show ?case
    using Cons.IH[OF f(2)] make_dirs_keep[OF f(2), of q Dir] by auto
qed simp

lemma mkdirs_file_iff:
  "fs_mkdirs fs p = Inr fs' \<Longrightarrow> map_of fs' q = Some (File t) \<longleftrightarrow> map_of fs q = Some (File t)"
  unfolding fs_mkdirs_def
  by (cases "map_of fs q") (auto dest: make_dirs_keep make_dirs_new)

lemma make_dirs_other: "foldR make_dir fs ps = Inr fs' \<Longrightarrow> q \<notin> set ps \<Longrightarrow> map_of fs' q = map_of fs q"
proof (induction ps arbitrary: fs)
  case (Cons x ps)
  then show ?case by (auto simp: bindR_eq_Inr_iff make_dir_def map_of_AList split: if_splits)
qed simp

lemma set_takes: "q \<in> set (map (\<lambda>n. take n p) [1..<Suc (length p)]) \<longleftrightarrow> prefix q p \<and> q \<noteq> []"
proof
  assume "prefix q p \<and> q \<noteq> []"
  then have "q = take (length q) p" "1 \<le> length q" "length q \<le> length p"
    using prefix_length_le by (auto simp: prefix_def Suc_le_eq)
  then show "q \<in> set (map (\<lambda>n. take n p) [1..<Suc (length p)])" by (metis atLeastLessThan_iff imageI le_imp_less_Suc list.set_map set_upt)
qed (auto simp: take_is_prefix)

text \<open>What making directories and writing a file change, entry by entry.\<close>

lemma mkdirs_entries:
  "fs_mkdirs fs p = Inr fs' \<Longrightarrow> map_of fs' q = map_of fs q \<or> map_of fs q = None \<and> map_of fs' q = Some Dir \<and> prefix q p"
proof -
  assume "fs_mkdirs fs p = Inr fs'"
  note f = this[unfolded fs_mkdirs_def]
  show ?thesis using make_dirs_other[OF f, of q] make_dirs_new[OF f, of q] make_dirs_keep[OF f, of q] set_takes[of q p]
    by (cases "map_of fs q") auto
qed

lemma written_parent:
  assumes "fs_write fs p t = Inr fs'"
  shows "path_parent p = butlast p" "prefix q (path_parent p) \<Longrightarrow> strict_prefix q p"
proof -
  have p: "p \<noteq> []" "\<not> (length p = 1 \<and> is_root (hd p))"
    using assms by (auto simp: fs_write_def fs_has_dir_def split: if_splits)
  then show b: "path_parent p = butlast p" unfolding path_parent_def by (simp only: if_False disj_not1 simp_thms)
  assume "prefix q (path_parent p)"
  then have "prefix q p" "length q < length p" using prefix_order.trans[OF _ prefixeq_butlast[of p]] prefix_length_le[of q "butlast p"] p
    by (simp_all add: b) (cases p, simp_all)
  then show "strict_prefix q p" by (auto simp: strict_prefix_def)
qed

text \<open>The state the commands change: the files and the two output streams.\<close>

record io =
  io_files :: fs
  io_out :: string
  io_err :: string

section \<open>Paths and their text\<close>

definition plain_part :: "string \<Rightarrow> bool" where
  "plain_part x \<longleftrightarrow> x \<noteq> [] \<and> x \<noteq> ''.'' \<and> CHR ''/'' \<notin> set x"

definition proper_path :: "path \<Rightarrow> bool" where
  "proper_path p \<longleftrightarrow> (\<exists>r q. p = r @ q \<and> (r = [] \<or> r = [''/''] \<or> r = [''//'']) \<and> list_all plain_part q)"

lemma split_on_bare: "sep \<notin> set s \<Longrightarrow> split_on sep s = [s]"
  by (induction s) auto

lemma split_on_pieces: "x \<in> set (split_on sep s) \<Longrightarrow> sep \<notin> set x"
  by (induction s arbitrary: x) (auto split: list.splits if_splits)

lemma root_parts_bare: "CHR ''/'' \<notin> set s \<Longrightarrow> root_parts s = []"
  by (cases s) (auto simp: root_parts_def)

lemma Path_plain: "plain_part x \<Longrightarrow> Path x = [x]"
  by (simp add: Path_def root_parts_bare plain_part_def split_on_bare)

lemma child_plain: "plain_part x \<Longrightarrow> child p x = p @ [x]"
  using Path_plain[of x] by (simp add: child_def root_parts_bare plain_part_def)

lemma proper_Path: "proper_path (Path s)"
proof -
  have "list_all plain_part (filter (\<lambda>p. p \<noteq> [] \<and> p \<noteq> ''.'') (split_on (CHR ''/'') s))"
    by (auto simp: list_all_iff plain_part_def dest: split_on_pieces)
  moreover have "root_parts s = [] \<or> root_parts s = [''/''] \<or> root_parts s = [''//'']" by (simp add: root_parts_def)
  ultimately show ?thesis unfolding proper_path_def Path_def by blast
qed

lemma proper_path_append: "proper_path p \<Longrightarrow> list_all plain_part q \<Longrightarrow> proper_path (p @ q)"
proof -
  assume "proper_path p" "list_all plain_part q"
  then obtain r x where "p = r @ x" "r = [] \<or> r = [''/''] \<or> r = [''//'']" "list_all plain_part x"
    unfolding proper_path_def by blast
  then show ?thesis using \<open>list_all plain_part q\<close> unfolding proper_path_def
    by (intro exI[of _ r] exI[of _ "x @ q"]) simp
qed

lemma split_on_join_plain: "q \<noteq> [] \<Longrightarrow> list_all plain_part q \<Longrightarrow> split_on (CHR ''/'') (join ''/'' q) = q"
  by (rule split_on_join) (auto simp: list_all_iff plain_part_def)

lemma filter_plain: "list_all plain_part q \<Longrightarrow> filter (\<lambda>p. p \<noteq> [] \<and> p \<noteq> ''.'') q = q"
  by (induction q) (auto simp: plain_part_def)

lemma join_plain_start:
  assumes "q \<noteq> []" "list_all plain_part q"
  shows "join ''/'' q \<noteq> [] \<and> hd (join ''/'' q) \<noteq> CHR ''/''"
proof -
  obtain x xs where q: "q = x # xs" using assms(1) by (cases q) auto
  have "x \<noteq> []" "CHR ''/'' \<notin> set x" using assms(2) by (simp_all add: q plain_part_def)
  moreover have "\<exists>t. join ''/'' q = x @ t" by (cases xs) (auto simp: q)
  ultimately show ?thesis by (cases x) auto
qed

text \<open>The text of a path other than the current directory names the same path again.\<close>

lemma Path_str_path:
  assumes "proper_path p" "p \<noteq> []"
  shows "Path (str_path p) = p"
proof -
  obtain r q where p: "p = r @ q" and r: "r = [] \<or> r = [''/''] \<or> r = [''//'']" and q: "list_all plain_part q"
    using assms(1) by (auto simp: proper_path_def)
  show ?thesis
  proof (cases "q = []")
    case True
    then show ?thesis using r assms(2) by (auto simp: p str_path_def is_root_def Path_def root_parts_def)
  next
    case False
    note j = join_plain_start[OF False q] split_on_join_plain[OF False q]
    have nr: "\<not> is_root (hd q)" using False q by (cases q) (auto simp: plain_part_def is_root_def)
    obtain c cs where c: "join ''/'' q = c # cs" "c \<noteq> CHR ''/''" using j(1) by (cases "join ''/'' q") auto
    from r consider "r = []" | "r = [''/'']" | "r = [''//'']" by blast
    then show ?thesis
    proof cases
      case 1
      then have s: "str_path p = join ''/'' q" using False nr by (cases q) (simp_all add: p str_path_def)
      have "root_parts (join ''/'' q) = []" using c by (simp add: root_parts_def)
      then show ?thesis unfolding s Path_def using j(2) filter_plain[OF q] 1 by (simp add: p)
    next
      case 2
      then have s: "str_path p = CHR ''/'' # join ''/'' q" by (simp add: p str_path_def is_root_def)
      have "root_parts (CHR ''/'' # join ''/'' q) = [''/'']" using c by (simp add: root_parts_def)
      then show ?thesis unfolding s Path_def using j(2) filter_plain[OF q] 2 by (simp add: p)
    next
      case 3
      then have s: "str_path p = CHR ''/'' # CHR ''/'' # join ''/'' q" by (simp add: p str_path_def is_root_def)
      have "root_parts (CHR ''/'' # CHR ''/'' # join ''/'' q) = [''//'']" using c by (simp add: root_parts_def)
      then show ?thesis unfolding s Path_def using j(2) filter_plain[OF q] 3 by (simp add: p)
    qed
  qed
qed

end
