(* ===== verification/Binary64.thy ===== *)
theory Binary64
  imports Prelude
begin

text \<open>
  Python floats: IEEE binary64 numbers with round-half-even, infinities and NaN.  A finite
  float is the rational number it denotes; the sign of a zero is not represented (the code
  only divides where division by zero raises, so no computation here can tell them apart).
  Rounding is executable, and the facts proved about it (monotone, exact on representable
  numbers, symmetric) are what the components use, through the locale \<open>rounding\<close>.
\<close>

section \<open>Round half to even on integers\<close>

definition round_half_even :: "rat \<Rightarrow> int" where
  "round_half_even x =
     (let f = \<lfloor>x\<rfloor>; d = x - of_int f
      in if d < 1/2 then f else if 1/2 < d then f + 1 else if even f then f else f + 1)"

lemma round_half_even_of_int [simp]: "round_half_even (of_int k) = k"
  by (simp add: round_half_even_def)

lemma round_half_even_bound: "\<bar>of_int (round_half_even x) - x\<bar> \<le> 1/2"
proof -
  have "of_int \<lfloor>x\<rfloor> \<le> x" "x < of_int \<lfloor>x\<rfloor> + 1" by linarith+
  then show ?thesis unfolding round_half_even_def Let_def
    by (auto simp: abs_le_iff split: if_splits)
qed

lemma round_half_even_floor_cases:
  "round_half_even x = \<lfloor>x\<rfloor> \<or> round_half_even x = \<lfloor>x\<rfloor> + 1"
  by (auto simp: round_half_even_def Let_def)

lemma round_half_even_mono: "x \<le> y \<Longrightarrow> round_half_even x \<le> round_half_even y"
proof (cases "\<lfloor>x\<rfloor> = \<lfloor>y\<rfloor>")
  case True
  moreover assume "x \<le> y"
  ultimately show ?thesis by (auto simp: round_half_even_def Let_def)
next
  case False
  moreover assume "x \<le> y"
  ultimately have "\<lfloor>x\<rfloor> < \<lfloor>y\<rfloor>" using floor_mono[of x y] by linarith
  then show ?thesis
    using round_half_even_floor_cases[of x] round_half_even_floor_cases[of y] by linarith
qed

lemma round_half_even_le: "x \<le> of_int k \<Longrightarrow> round_half_even x \<le> k"
  using round_half_even_mono[of x "of_int k"] by simp

lemma round_half_even_ge: "of_int k \<le> x \<Longrightarrow> k \<le> round_half_even x"
  using round_half_even_mono[of "of_int k" x] by simp

lemma round_half_even_minus: "round_half_even (- x) = - round_half_even x"
proof (cases "x = of_int \<lfloor>x\<rfloor>")
  case True
  then obtain k where k: "x = of_int k" by blast
  have "round_half_even (- x) = round_half_even (of_int (- k))" by (simp add: k)
  then show ?thesis by (simp only: round_half_even_of_int) (simp add: k)
next
  case False
  then have "\<lfloor>- x\<rfloor> = - \<lfloor>x\<rfloor> - 1" by (smt (verit) ceiling_altdef floor_minus)
  then show ?thesis by (auto simp: round_half_even_def Let_def)
qed

lemma round_half_even_eqI:
  assumes "\<bar>x - of_int k\<bar> < 1/2"
  shows "round_half_even x = k"
proof -
  have "\<bar>of_int (round_half_even x) - (of_int k :: rat)\<bar> < 1"
    using round_half_even_bound[of x] assms by linarith
  then have "\<bar>round_half_even x - k\<bar> < 1" by (metis of_int_abs of_int_diff of_int_less_1_iff)
  then show ?thesis by simp
qed

section \<open>Binary exponents\<close>

fun bit_len :: "int \<Rightarrow> nat" where
  "bit_len n = (if n \<le> 0 then 0 else Suc (bit_len (n div 2)))"

declare bit_len.simps [simp del]

lemma bit_len_upper: "n < 2 ^ bit_len n"
proof (induction n rule: bit_len.induct)
  case (1 n)
  then show ?case by (cases "n \<le> 0") (simp_all add: bit_len.simps[of n])
qed

lemma bit_len_lower: "0 < n \<Longrightarrow> 2 ^ bit_len n \<le> 2 * n"
proof (induction n rule: bit_len.induct)
  case (1 n)
  show ?case
  proof (cases "n div 2 \<le> 0")
    case True
    with 1 have "n = 1" by simp
    then show ?thesis by (simp add: bit_len.simps[of 1] bit_len.simps[of 0])
  next
    case False
    with 1 have "2 ^ bit_len (n div 2) \<le> 2 * (n div 2)" by simp
    also have "\<dots> \<le> n" by simp
    finally show ?thesis using 1 by (simp add: bit_len.simps[of n])
  qed
qed

definition ilog2 :: "rat \<Rightarrow> int" where
  "ilog2 x = (let (p, q) = quotient_of x; e = int (bit_len p) - int (bit_len q)
              in if 2 powi e \<le> x then e else e - 1)"

lemma ilog2_bounds:
  assumes "0 < x"
  shows "2 powi ilog2 x \<le> x \<and> x < 2 powi (ilog2 x + 1)"
proof -
  obtain p q where pq: "quotient_of x = (p, q)" by (cases "quotient_of x")
  have q: "0 < q" and x: "x = of_int p / of_int q"
    using quotient_of_denom_pos[OF pq] quotient_of_div[OF pq] by auto
  with assms have p: "0 < p" by (simp add: zero_less_divide_iff)
  define a b where "a = bit_len p" and "b = bit_len q"
  have bnd: "(of_int n :: rat) < 2 ^ bit_len n \<and> (2::rat) ^ bit_len n \<le> 2 * of_int n"
    if "0 < n" for n
  proof
    show "(of_int n :: rat) < 2 ^ bit_len n"
      using bit_len_upper[of n] by (metis of_int_less_iff of_int_numeral of_int_power)
    show "(2::rat) ^ bit_len n \<le> 2 * of_int n"
      using bit_len_lower[OF that] by (metis of_int_le_iff of_int_mult of_int_numeral of_int_power)
  qed
  note P = bnd[OF p, folded a_def] and Q = bnd[OF q, folded b_def]
  have e: "2 powi (int a - int b) = (2::rat) ^ a / 2 ^ b"
    by (simp add: power_int_diff)
  have lo: "2 powi (int a - int b - 1) \<le> x"
  proof -
    have "(2::rat) powi (int a - int b - 1) = 2 ^ a / 2 / 2 ^ b"
      using e by (simp add: power_int_diff)
    also have "\<dots> \<le> of_int p / of_int q"
      by (intro frac_le) (use P Q p q in auto)
    finally show ?thesis by (simp add: x)
  qed
  have hi: "x < 2 powi (int a - int b + 1)"
  proof -
    have "of_int p / of_int q < (2::rat) ^ a / (2 ^ b / 2)"
      by (rule frac_less) (use P Q p q in auto)
    also have "\<dots> = 2 powi (int a - int b + 1)" using e by (simp add: power_int_add)
    finally show ?thesis by (simp add: x)
  qed
  show ?thesis
    using lo hi by (simp add: ilog2_def pq Let_def a_def b_def)
qed

lemma two_powi_pos [simp]: "(0::rat) < 2 powi e"
  by simp

lemma powi_strict: "m < n \<Longrightarrow> (2::rat) powi m < 2 powi n"
  by (rule power_int_strict_increasing) simp_all

lemma powi_less_iff: "(2::rat) powi m < 2 powi n \<longleftrightarrow> m < n"
proof
  assume "(2::rat) powi m < 2 powi n"
  then show "m < n" using powi_strict[of n m] by (cases m n rule: linorder_cases) auto
qed (rule powi_strict)

lemma powi_le_iff: "(2::rat) powi m \<le> 2 powi n \<longleftrightarrow> m \<le> n"
  by (simp add: powi_less_iff flip: not_less)

lemma powi_add: "(2::rat) powi (m + n) = 2 powi m * 2 powi n"
  by (simp add: power_int_add)

lemma powi_nat: "0 \<le> m \<Longrightarrow> (2::rat) powi m = of_int (2 ^ nat m)"
  by (simp add: power_int_def)

lemma ilog2_unique:
  assumes "2 powi e \<le> x" and "x < 2 powi (e + 1)"
  shows "ilog2 x = e"
proof -
  have "0 < x" using assms(1) two_powi_pos[of e] by linarith
  then have b: "2 powi ilog2 x \<le> x" "x < 2 powi (ilog2 x + 1)" using ilog2_bounds by auto
  then have "(2::rat) powi e < 2 powi (ilog2 x + 1)" "(2::rat) powi ilog2 x < 2 powi (e + 1)"
    using assms by linarith+
  then show ?thesis by (simp add: powi_less_iff)
qed

lemma ilog2_mono: "0 < x \<Longrightarrow> x \<le> y \<Longrightarrow> ilog2 x \<le> ilog2 y"
proof -
  assume "0 < x" "x \<le> y"
  then have "2 powi ilog2 x \<le> x" "y < 2 powi (ilog2 y + 1)" using ilog2_bounds by auto
  then have "(2::rat) powi ilog2 x < 2 powi (ilog2 y + 1)" using \<open>x \<le> y\<close> by linarith
  then show ?thesis by (simp add: powi_less_iff)
qed

section \<open>Rounding to binary64\<close>

text \<open>
  The spacing of the floats around \<open>x\<close> is \<open>2 powi ulp_exp x\<close>: 52 bits below the leading
  one, and never below the subnormal spacing of \<open>2 powi -1074\<close>.
\<close>

definition ulp_exp :: "rat \<Rightarrow> int" where
  "ulp_exp x = max (ilog2 \<bar>x\<bar> - 52) (- 1074)"

definition rnd64 :: "rat \<Rightarrow> rat" where
  "rnd64 x = (if x = 0 then 0
     else of_int (round_half_even (x / 2 powi ulp_exp x)) * 2 powi ulp_exp x)"

definition float64 :: "rat \<Rightarrow> bool" where
  "float64 x \<longleftrightarrow> (\<exists>m e. x = of_int m * 2 powi e \<and> \<bar>m\<bar> \<le> 2 ^ 53 \<and> - 1074 \<le> e)"

lemma rnd64_0 [simp]: "rnd64 0 = 0"
  by (simp add: rnd64_def)

lemma ulp_exp_minus [simp]: "ulp_exp (- x) = ulp_exp x"
  by (simp add: ulp_exp_def)

lemma rnd64_minus: "rnd64 (- x) = - rnd64 x"
  using round_half_even_minus[of "x / 2 powi ulp_exp x"] by (simp add: rnd64_def)

lemma rnd64_multiple:
  assumes "x = of_int k * 2 powi ulp_exp x"
  shows "rnd64 x = x"
proof (cases "x = 0")
  case False
  have "x / 2 powi ulp_exp x = of_int k" using assms by (simp add: field_simps)
  then show ?thesis using assms False by (simp add: rnd64_def)
qed simp

lemma rnd64_id:
  assumes "float64 x"
  shows "rnd64 x = x"
proof (cases "x = 0")
  case False
  obtain m e where x: "x = of_int m * 2 powi e" and m: "\<bar>m\<bar> \<le> 2 ^ 53" and e: "- 1074 \<le> e"
    using assms by (auto simp: float64_def)
  let ?u = "ulp_exp x"
  have ax: "\<bar>x\<bar> = of_int \<bar>m\<bar> * 2 powi e" by (simp add: x abs_mult)
  have "of_int \<bar>m\<bar> \<le> (2::rat) ^ 53" using m by (metis of_int_le_iff of_int_numeral of_int_power)
  then have "\<bar>x\<bar> \<le> 2 ^ 53 * 2 powi e" unfolding ax by (intro mult_right_mono) auto
  also have "\<dots> = 2 powi (e + 53)" by (simp add: powi_add)
  finally have up: "\<bar>x\<bar> \<le> 2 powi (e + 53)" .
  have lo: "2 powi ilog2 \<bar>x\<bar> \<le> \<bar>x\<bar>" using ilog2_bounds[of "\<bar>x\<bar>"] False by simp
  then have "(2::rat) powi ilog2 \<bar>x\<bar> \<le> 2 powi (e + 53)" using up by linarith
  then have il: "ilog2 \<bar>x\<bar> \<le> e + 53" by (simp add: powi_le_iff)
  show ?thesis
  proof (cases "?u \<le> e")
    case True
    then have "2 powi e = of_int (2 ^ nat (e - ?u)) * (2::rat) powi ?u"
      using powi_add[of "e - ?u" ?u] powi_nat[of "e - ?u"] by simp
    then have "x = of_int (m * 2 ^ nat (e - ?u)) * 2 powi ?u" by (simp add: x)
    then show ?thesis by (rule rnd64_multiple)
  next
    case False
    then have u: "?u = e + 1" and "ilog2 \<bar>x\<bar> = e + 53" using il e by (auto simp: ulp_exp_def)
    then have "2 powi (e + 53) \<le> \<bar>x\<bar>" using lo by simp
    then have "\<bar>x\<bar> = 2 powi (e + 53)" using up by linarith
    also have "\<dots> = of_int (2 ^ 52) * 2 powi ?u"
      using powi_add[of 52 "e + 1"] by (simp add: u add.commute)
    finally have "x = of_int (2 ^ 52) * 2 powi ?u \<or> x = of_int (- (2 ^ 52)) * 2 powi ?u"
      by (auto simp: abs_if split: if_splits)
    then show ?thesis by (metis rnd64_multiple)
  qed
qed simp

lemma rnd64_same_ulp:
  assumes "x \<le> y" "x \<noteq> 0" "y \<noteq> 0" "ulp_exp x = ulp_exp y"
  shows "rnd64 x \<le> rnd64 y"
proof -
  have "round_half_even (x / 2 powi ulp_exp y) \<le> round_half_even (y / 2 powi ulp_exp y)"
    by (rule round_half_even_mono) (simp add: assms(1) divide_right_mono)
  then show ?thesis by (simp add: rnd64_def assms(2-4) mult_right_mono)
qed

lemma rnd64_nonneg: "0 \<le> x \<Longrightarrow> 0 \<le> rnd64 x"
  using round_half_even_ge[of 0 "x / 2 powi ulp_exp x"] by (simp add: rnd64_def)

lemma rnd64_mono_pos:
  assumes "0 < x" "x \<le> y"
  shows "rnd64 x \<le> rnd64 y"
proof (cases "ulp_exp x = ulp_exp y")
  case True
  then show ?thesis using assms by (intro rnd64_same_ulp) auto
next
  case False
  have "ilog2 x \<le> ilog2 y" using assms by (rule ilog2_mono)
  then have u: "ulp_exp y = ilog2 y - 52" "ulp_exp x \<le> ilog2 y - 53" "ilog2 x + 1 \<le> ilog2 y"
    using False assms by (auto simp: ulp_exp_def)
  let ?p = "2 powi ilog2 y :: rat"
  have "x < 2 powi (ilog2 x + 1)" using ilog2_bounds assms by blast
  also have "\<dots> \<le> ?p" using u by (simp add: powi_le_iff)
  finally have "x / 2 powi ulp_exp x \<le> ?p / 2 powi ulp_exp x" by (simp add: divide_right_mono)
  also have "\<dots> = of_int (2 ^ nat (ilog2 y - ulp_exp x))"
    using powi_nat[of "ilog2 y - ulp_exp x"] u by (simp add: power_int_diff)
  finally have "round_half_even (x / 2 powi ulp_exp x) \<le> 2 ^ nat (ilog2 y - ulp_exp x)"
    by (rule round_half_even_le)
  then have "rnd64 x \<le> of_int (2 ^ nat (ilog2 y - ulp_exp x)) * 2 powi ulp_exp x"
    using assms by (simp add: rnd64_def)
  also have "\<dots> = ?p"
    using powi_nat[of "ilog2 y - ulp_exp x"] powi_add[of "ilog2 y - ulp_exp x" "ulp_exp x"] u by simp
  finally have left: "rnd64 x \<le> ?p" .
  have "?p \<le> y" using ilog2_bounds[of y] assms by auto
  then have "of_int (2 ^ 52) \<le> y / 2 powi ulp_exp y"
    using powi_add[of 52 "ilog2 y - 52"] unfolding u(1)
    by (subst pos_le_divide_eq) (simp_all add: mult.commute)
  then have "2 ^ 52 \<le> round_half_even (y / 2 powi ulp_exp y)" by (rule round_half_even_ge)
  then have "of_int (2 ^ 52) * 2 powi ulp_exp y \<le> rnd64 y"
    using assms by (simp add: rnd64_def)
  moreover have "of_int (2 ^ 52) * 2 powi ulp_exp y = ?p"
    using powi_add[of 52 "ilog2 y - 52"] u by simp
  ultimately show ?thesis using left by linarith
qed

lemma rnd64_mono: "x \<le> y \<Longrightarrow> rnd64 x \<le> rnd64 y"
proof -
  assume le: "x \<le> y"
  consider "0 < x" | "x \<le> 0" "0 \<le> y" | "y < 0" by linarith
  then show ?thesis
  proof cases
    case 1 then show ?thesis using le by (rule rnd64_mono_pos)
  next
    case 2 then show ?thesis using rnd64_nonneg[of "- x"] rnd64_nonneg[of y] by (simp add: rnd64_minus)
  next
    case 3 then show ?thesis using rnd64_mono_pos[of "- y" "- x"] le by (simp add: rnd64_minus)
  qed
qed

lemma rnd64_error: "\<bar>rnd64 x - x\<bar> \<le> 2 powi ulp_exp x / 2"
proof (cases "x = 0")
  case False
  let ?u = "2 powi ulp_exp x :: rat"
  have "rnd64 x - x = (of_int (round_half_even (x / ?u)) - x / ?u) * ?u"
    using False by (simp add: rnd64_def algebra_simps)
  then have "\<bar>rnd64 x - x\<bar> = \<bar>of_int (round_half_even (x / ?u)) - x / ?u\<bar> * ?u"
    by (simp add: abs_mult)
  also have "\<dots> \<le> 1/2 * ?u" by (intro mult_right_mono round_half_even_bound) simp
  finally show ?thesis by simp
qed simp

lemma float64_rnd64: "float64 (rnd64 x)"
proof (cases "x = 0")
  case True
  then show ?thesis by (auto simp: float64_def intro!: exI[of _ 0])
next
  case False
  let ?u = "ulp_exp x"
  have "\<bar>x\<bar> < 2 powi (ilog2 \<bar>x\<bar> + 1)" using ilog2_bounds[of "\<bar>x\<bar>"] False by simp
  also have "\<dots> \<le> 2 powi (53 + ?u)" by (simp add: powi_le_iff ulp_exp_def)
  also have "\<dots> = 2 ^ 53 * 2 powi ?u" by (simp add: powi_add)
  finally have b: "\<bar>x / 2 powi ?u\<bar> < 2 ^ 53" by (simp add: field_simps)
  have "x / 2 powi ?u \<le> of_int (2 ^ 53)" "of_int (- (2 ^ 53)) \<le> x / 2 powi ?u"
    using b unfolding abs_less_iff by auto
  then have "round_half_even (x / 2 powi ?u) \<le> 2 ^ 53" "- (2 ^ 53) \<le> round_half_even (x / 2 powi ?u)"
    by (blast intro: round_half_even_le round_half_even_ge)+
  then show ?thesis using False unfolding float64_def rnd64_def
    by (intro exI[of _ "round_half_even (x / 2 powi ?u)"] exI[of _ ?u]) (auto simp: ulp_exp_def)
qed

lemma float64_of_int: "\<bar>n\<bar> \<le> 2 ^ 53 \<Longrightarrow> float64 (of_int n)"
  unfolding float64_def by (rule exI[of _ n], rule exI[of _ 0]) simp

lemma float64_quarters: "\<bar>n\<bar> \<le> 2 ^ 53 \<Longrightarrow> float64 (of_int n / 4)"
  unfolding float64_def by (rule exI[of _ n], rule exI[of _ "- 2"]) (simp add: power_int_def power2_eq_square)

lemma float64_0 [simp]: "float64 0"
  using float64_of_int[of 0] by simp

lemma float64_minus: "float64 x \<Longrightarrow> float64 (- x)"
proof -
  assume "float64 x"
  then obtain m e where "x = of_int m * 2 powi e" "\<bar>m\<bar> \<le> 2 ^ 53" "- 1074 \<le> e"
    by (auto simp: float64_def)
  then show ?thesis unfolding float64_def by (intro exI[of _ "- m"] exI[of _ e]) simp
qed

section \<open>The interface of the arithmetic\<close>

text \<open>
  What the components use of floating point: a rounding function that is monotone and leaves
  the representable numbers alone.
\<close>

locale rounding =
  fixes rnd :: "rat \<Rightarrow> rat" and rep :: "rat \<Rightarrow> bool"
  assumes rnd_mono: "x \<le> y \<Longrightarrow> rnd x \<le> rnd y"
    and rnd_rep: "rep x \<Longrightarrow> rnd x = x"
    and rep_rnd: "rep (rnd x)"
    and rep_zero: "rep 0"
begin

lemma rnd_zero: "rnd 0 = 0"
  by (rule rnd_rep[OF rep_zero])

lemma rnd_idem: "rnd (rnd x) = rnd x"
  by (rule rnd_rep[OF rep_rnd])

lemma rnd_le: "x \<le> y \<Longrightarrow> rep y \<Longrightarrow> rnd x \<le> y"
  using rnd_mono[of x y] rnd_rep by simp

lemma rnd_ge: "x \<le> y \<Longrightarrow> rep x \<Longrightarrow> x \<le> rnd y"
  using rnd_mono[of x y] rnd_rep by simp

lemma rnd_nonneg: "0 \<le> x \<Longrightarrow> 0 \<le> rnd x"
  by (rule rnd_ge[OF _ rep_zero])

lemma rnd_nonpos: "x \<le> 0 \<Longrightarrow> rnd x \<le> 0"
  by (rule rnd_le[OF _ rep_zero])

text \<open>A rounded weighted sum is monotone in both of the values it weighs.\<close>

lemma rnd_blend_mono:
  "x \<le> x' \<Longrightarrow> y \<le> y' \<Longrightarrow> 0 \<le> v \<Longrightarrow> 0 \<le> w
   \<Longrightarrow> rnd (rnd (x * v) + rnd (y * w)) \<le> rnd (rnd (x' * v) + rnd (y' * w))"
  by (intro rnd_mono add_mono mult_right_mono)

lemma rnd_scale_mono: "0 \<le> g \<Longrightarrow> v \<le> w \<Longrightarrow> rnd (g * v) \<le> rnd (g * w)"
  by (intro rnd_mono mult_left_mono)

end

interpretation b64: rounding rnd64 float64
  by unfold_locales (auto intro: rnd64_mono rnd64_id float64_rnd64)

section \<open>Quarters\<close>

text \<open>Rounding inside one binade, and the significand of a double.\<close>

lemma rnd64_in_binade:
  assumes "2 ^ 52 \<le> y" "y < 2 ^ 53" "- 1074 \<le> e"
  shows "rnd64 (y * 2 powi e) = of_int (round_half_even y) * 2 powi e"
proof -
  have p: "(0::rat) < 2 powi e" by simp
  have "ilog2 (y * 2 powi e) = e + 52"
  proof (rule ilog2_unique)
    show "2 powi (e + 52) \<le> y * 2 powi e"
      using mult_right_mono[OF assms(1), of "2 powi e"] p by (simp add: powi_add powi_nat mult.commute)
    have "y * 2 powi e < 2 ^ 53 * 2 powi e" using assms(2) p by (rule mult_strict_right_mono)
    then show "y * 2 powi e < 2 powi (e + 52 + 1)" by (simp add: powi_add powi_nat mult.commute)
  qed
  moreover have "0 < y" using assms(1) by (rule less_le_trans[rotated]) simp
  ultimately have "ulp_exp (y * 2 powi e) = e"
    using p assms(3) by (simp add: ulp_exp_def abs_mult)
  then show ?thesis using \<open>0 < y\<close> by (simp add: rnd64_def)
qed

lemma float64_significand:
  assumes "float64 x" "2 powi (- 1000) \<le> x"
  obtains m e where "x = of_int m * 2 powi e" "2 ^ 52 \<le> m" "m < 2 ^ 53" "- 1052 \<le> e"
proof -
  let ?e = "ulp_exp x" and ?m = "round_half_even (x / 2 powi ulp_exp x)"
  have pos: "0 < x" using assms(2) by (rule less_le_trans[rotated]) simp
  have b: "2 powi ilog2 x \<le> x" "x < 2 powi (ilog2 x + 1)" using ilog2_bounds[OF pos] by auto
  have "- 1000 \<le> ilog2 x" using b(2) assms(2)
    using powi_less_iff[of "- 1000" "ilog2 x + 1"] by linarith
  then have e: "?e = ilog2 x - 52" using pos by (simp add: ulp_exp_def)
  have x: "x = of_int ?m * 2 powi ?e" using b64.rnd_rep[OF assms(1)] pos by (simp add: rnd64_def)
  have q: "x = (x / 2 powi ?e) * 2 powi ?e" by simp
  have s: "(2::rat) powi ilog2 x = 2 ^ 52 * 2 powi ?e" "(2::rat) powi (ilog2 x + 1) = 2 ^ 53 * 2 powi ?e"
    using powi_add[of 52 ?e] powi_add[of 53 ?e] by (simp_all add: e add.commute)
  have "(2::rat) ^ 52 * 2 powi ?e \<le> x" using b(1) s(1) by simp
  then have "(2::rat) ^ 52 * 2 powi ?e \<le> of_int ?m * 2 powi ?e" by (subst (asm) x)
  then have "(2 ^ 52 :: rat) \<le> of_int ?m" by (rule mult_right_le_imp_le) simp
  moreover have "x < 2 ^ 53 * 2 powi ?e" using b(2) s(2) by simp
  then have "of_int ?m * 2 powi ?e < (2::rat) ^ 53 * 2 powi ?e" by (subst (asm) x)
  then have "(of_int ?m :: rat) < 2 ^ 53" by (rule mult_right_less_imp_less) simp
  ultimately have "2 ^ 52 \<le> ?m \<and> ?m < 2 ^ 53"
    by (metis of_int_le_iff of_int_less_iff of_int_numeral of_int_power)
  then have "2 ^ 52 \<le> ?m" "?m < 2 ^ 53" by blast+
  moreover have "- 1052 \<le> ?e" using e \<open>- 1000 \<le> ilog2 x\<close> by simp
  ultimately show ?thesis using that x by blast
qed

lemma rhe_add_half: "round_half_even (of_int k + 1/2) = (if even k then k else k + 1)"
proof -
  have "\<lfloor>of_int k + 1/2 :: rat\<rfloor> = k" by linarith
  then show ?thesis by (simp add: round_half_even_def)
qed

lemma rhe_near: "\<bar>d\<bar> < 1/2 \<Longrightarrow> round_half_even (of_int k + d) = k"
  by (rule round_half_even_eqI) simp

lemma rhe_quarter: "round_half_even (of_int k + 1 / 4) = k" "round_half_even (of_int k + (- 1 / 4)) = k"
  by (rule rhe_near, simp)+

text \<open>Three quarters of an integer, rounded, and the exact quarter add up to the integer again.\<close>

lemma three_quarters: "round_half_even (of_int (round_half_even (3 * of_int m / 4)) + of_int m / 4 :: rat) = m"
proof -
  define q where "q = m div 4"
  consider "m = 4 * q" | "m = 4 * q + 1" | "m = 4 * q + 2" | "m = 4 * q + 3"
    unfolding q_def by (atomize_elim, presburger)
  then show ?thesis
  proof cases
    case 1
    have "3 * of_int m / 4 = (of_int (3 * q) :: rat)" by (simp add: 1)
    then have "round_half_even (3 * of_int m / 4 :: rat) = 3 * q" by (simp only: round_half_even_of_int)
    moreover have "of_int (3 * q) + of_int m / 4 = (of_int m :: rat)" by (simp add: 1)
    ultimately show ?thesis by (simp only: round_half_even_of_int)
  next
    case 2
    have "3 * of_int m / 4 = (of_int (3 * q + 1) + (- 1 / 4) :: rat)" by (simp add: 2)
    then have "round_half_even (3 * of_int m / 4 :: rat) = 3 * q + 1" by (simp only: rhe_quarter)
    moreover have "of_int (3 * q + 1) + of_int m / 4 = (of_int m + 1 / 4 :: rat)" by (simp add: 2 field_simps)
    ultimately show ?thesis by (simp only: rhe_quarter)
  next
    case 3
    have h: "3 * of_int m / 4 = (of_int (3 * q + 1) + 1 / 2 :: rat)" by (simp add: 3)
    have r: "round_half_even (3 * of_int m / 4 :: rat) = (if even (3 * q + 1) then 3 * q + 1 else 3 * q + 2)"
      unfolding h by (subst rhe_add_half) simp
    show ?thesis
    proof (cases "even (3 * q + 1)")
      case True
      then have r: "round_half_even (3 * of_int m / 4 :: rat) = 3 * q + 1" using r by simp
      have e: "of_int (3 * q + 1) + of_int m / 4 = (of_int (m - 1) + 1 / 2 :: rat)" by (simp add: 3 field_simps)
      have "round_half_even (of_int (m - 1) + 1 / 2 :: rat) = m" unfolding rhe_add_half by (simp add: 3)
      then show ?thesis by (simp only: r e)
    next
      case False
      then have r: "round_half_even (3 * of_int m / 4 :: rat) = 3 * q + 2" using r by simp
      have e: "of_int (3 * q + 2) + of_int m / 4 = (of_int m + 1 / 2 :: rat)" by (simp add: 3 field_simps)
      have "round_half_even (of_int m + 1 / 2 :: rat) = m" unfolding rhe_add_half by (simp add: 3)
      then show ?thesis by (simp only: r e)
    qed
  next
    case 4
    have "3 * of_int m / 4 = (of_int (3 * q + 2) + 1 / 4 :: rat)" by (simp add: 4)
    then have "round_half_even (3 * of_int m / 4 :: rat) = 3 * q + 2" by (simp only: rhe_quarter)
    moreover have "of_int (3 * q + 2) + of_int m / 4 = (of_int m + (- 1 / 4) :: rat)" by (simp add: 4 field_simps)
    ultimately show ?thesis by (simp only: rhe_quarter)
  qed
qed

lemma three_halves:
  "round_half_even (of_int (round_half_even (3 * of_int m / 2)) / 2 + of_int m / 4 :: rat) = m"
proof (cases "even m")
  case True
  then obtain k where "m = 2 * k" by blast
  then have "3 * of_int m / 2 = (of_int (3 * k) :: rat)" by simp
  then have "round_half_even (3 * of_int m / 2 :: rat) = 3 * k" by (simp only: round_half_even_of_int)
  moreover have "of_int (3 * k) / 2 + of_int m / 4 = (of_int m :: rat)" using \<open>m = 2 * k\<close> by simp
  ultimately show ?thesis by (simp only: round_half_even_of_int)
next
  case False
  then obtain k where m: "m = 2 * k + 1" by (metis oddE)
  have h: "3 * of_int m / 2 = (of_int (3 * k + 1) + 1 / 2 :: rat)" by (simp add: m)
  have r: "round_half_even (3 * of_int m / 2 :: rat) \<in> {3 * k + 1, 3 * k + 2}"
    unfolding h by (subst rhe_add_half) simp
  have a: "of_int (3 * k + 1) / 2 + of_int m / 4 = (of_int m + (- 1 / 4) :: rat)"
    "of_int (3 * k + 2) / 2 + of_int m / 4 = (of_int m + 1 / 4 :: rat)" by (simp_all add: m field_simps)
  from r show ?thesis
  proof (elim insertE emptyE)
    assume "round_half_even (3 * of_int m / 2 :: rat) = 3 * k + 1"
    then show ?thesis by (simp only: a(1) rhe_quarter)
  next
    assume "round_half_even (3 * of_int m / 2 :: rat) = 3 * k + 2"
    then show ?thesis by (simp only: a(2) rhe_quarter)
  qed
qed


text \<open>A double large enough for its quarter to be one is the rounded sum of its quarters.\<close>

lemma quarters_add_up:
  assumes "float64 x" "2 powi (- 1000) \<le> x"
  shows "rnd64 (rnd64 (3 * x / 4) + rnd64 (x / 4)) = x"
proof -
  obtain m e where x: "x = of_int m * 2 powi e" and m: "2 ^ 52 \<le> m" "m < 2 ^ 53" and e: "- 1052 \<le> e"
    by (rule float64_significand[OF assms])
  have mr: "(2::rat) ^ 52 \<le> of_int m" "(of_int m :: rat) < 2 ^ 53"
    using m by (metis of_int_le_iff of_int_less_iff of_int_numeral of_int_power)+
  have p: "(2::rat) powi e = 2 * 2 powi (e - 1)" "(2::rat) powi e = 4 * 2 powi (e - 2)"
    using powi_add[of 1 "e - 1"] powi_add[of 2 "e - 2"] by (simp_all add: add.commute)
  have quarter: "rnd64 (x / 4) = of_int m / 4 * 2 powi e"
  proof -
    have "x / 4 = of_int m * 2 powi (e - 2)" by (simp add: x p(2))
    then have "float64 (x / 4)"
      unfolding float64_def by (intro exI[of _ m] exI[of _ "e - 2"]) (use m e in auto)
    then have "rnd64 (x / 4) = x / 4" by (rule b64.rnd_rep)
    then show ?thesis by (simp add: x)
  qed
  show ?thesis
  proof (cases "(2::rat) ^ 52 \<le> 3 * of_int m / 4")
    case True
    let ?r = "round_half_even (3 * of_int m / 4 :: rat)"
    have "rnd64 (3 * of_int m / 4 * 2 powi e) = of_int ?r * 2 powi e"
      by (rule rnd64_in_binade) (use True mr e in auto)
    then have s: "rnd64 (3 * x / 4) + rnd64 (x / 4) = (of_int ?r + of_int m / 4) * 2 powi e"
      using quarter by (simp add: x algebra_simps)
    have near: "of_int m - 1 / 2 \<le> (of_int ?r + of_int m / 4 :: rat)" "(of_int ?r + of_int m / 4 :: rat) \<le> of_int m + 1 / 2"
      using round_half_even_bound[of "3 * of_int m / 4"] by (simp_all only: abs_le_iff) linarith+
    have "rnd64 ((of_int ?r + of_int m / 4) * 2 powi e) = of_int (round_half_even (of_int ?r + of_int m / 4 :: rat)) * 2 powi e"
    proof (rule rnd64_in_binade)
      show "(2::rat) ^ 52 \<le> of_int ?r + of_int m / 4" using near(1) True by simp
      have "(of_int m :: rat) + 1 \<le> 2 ^ 53" 
      proof -
        have "m + 1 \<le> 2 ^ 53" using m(2) by linarith
        then have "of_int (m + 1) \<le> (of_int (2 ^ 53) :: rat)" by (simp only: of_int_le_iff)
        then show ?thesis by simp
      qed
      then show "(of_int ?r + of_int m / 4 :: rat) < 2 ^ 53" using near(2) by linarith
    qed (use e in simp)
    then have "rnd64 (rnd64 (3 * x / 4) + rnd64 (x / 4)) = of_int m * 2 powi e" unfolding s three_quarters .
    then show ?thesis using x by simp
  next
    case False
    let ?r = "round_half_even (3 * of_int m / 2 :: rat)"
    have "rnd64 (3 * of_int m / 2 * 2 powi (e - 1)) = of_int ?r * 2 powi (e - 1)"
      by (rule rnd64_in_binade) (use False mr e in auto)
    then have s: "rnd64 (3 * x / 4) + rnd64 (x / 4) = (of_int ?r / 2 + of_int m / 4) * 2 powi e"
      using quarter by (simp add: x p(1) algebra_simps)
    have near: "of_int m - 1 / 4 \<le> (of_int ?r / 2 + of_int m / 4 :: rat)" "(of_int ?r / 2 + of_int m / 4 :: rat) \<le> of_int m + 1 / 4"
      using round_half_even_bound[of "3 * of_int m / 2"] by (simp_all only: abs_le_iff) linarith+
    have lower: "(2::rat) ^ 52 \<le> of_int ?r / 2 + of_int m / 4"
    proof (cases "m = 2 ^ 52")
      case True
      have "3 * of_int m / 2 = (of_int (3 * 2 ^ 51) :: rat)" by (simp add: True)
      then have "?r = 3 * 2 ^ 51" by (simp only: round_half_even_of_int)
      then show ?thesis by (simp add: True)
    next
      case ne: False
      then have "2 ^ 52 + 1 \<le> m" using m(1) by simp
      then have "(of_int (2 ^ 52 + 1) :: rat) \<le> of_int m" by (simp only: of_int_le_iff)
      then have "(2::rat) ^ 52 + 1 \<le> of_int m" by simp
      then show ?thesis using near(1) by linarith
    qed
    have "rnd64 ((of_int ?r / 2 + of_int m / 4) * 2 powi e)
          = of_int (round_half_even (of_int ?r / 2 + of_int m / 4 :: rat)) * 2 powi e"
      by (rule rnd64_in_binade[OF lower]) (use near(2) False e in auto)
    then have "rnd64 (rnd64 (3 * x / 4) + rnd64 (x / 4)) = of_int m * 2 powi e" unfolding s three_halves .
    then show ?thesis using x by simp
  qed
qed

section \<open>Python floats\<close>

datatype pyfloat = Fin rat | PInf | NInf | NaN

definition to_float :: "rat \<Rightarrow> pyfloat" where
  "to_float x = (let r = rnd64 x in
     if 2 ^ 1024 \<le> r then PInf else if r \<le> - (2 ^ 1024) then NInf else Fin r)"

text \<open>\<^verbatim>\<open>float(n)\<close> on an int raises when the rounded value is out of range.\<close>

definition int_to_float :: "int \<Rightarrow> pyfloat res" where
  "int_to_float n = (case to_float (of_int n) of Fin r \<Rightarrow> Inr (Fin r) | _ \<Rightarrow> Inl OverflowError)"

fun flt :: "pyfloat \<Rightarrow> pyfloat \<Rightarrow> bool" where
  "flt (Fin x) (Fin y) = (x < y)"
| "flt NaN _ = False"
| "flt _ NaN = False"
| "flt NInf b = (b \<noteq> NInf)"
| "flt _ NInf = False"
| "flt PInf _ = False"
| "flt _ PInf = True"

definition feq :: "pyfloat \<Rightarrow> pyfloat \<Rightarrow> bool" where
  "feq a b \<longleftrightarrow> a \<noteq> NaN \<and> a = b"

definition fle :: "pyfloat \<Rightarrow> pyfloat \<Rightarrow> bool" where
  "fle a b \<longleftrightarrow> flt a b \<or> feq a b"

fun fneg :: "pyfloat \<Rightarrow> pyfloat" where
  "fneg (Fin x) = Fin (- x)" | "fneg PInf = NInf" | "fneg NInf = PInf" | "fneg NaN = NaN"

fun fadd :: "pyfloat \<Rightarrow> pyfloat \<Rightarrow> pyfloat" where
  "fadd (Fin x) (Fin y) = to_float (x + y)"
| "fadd NaN _ = NaN"
| "fadd _ NaN = NaN"
| "fadd PInf NInf = NaN"
| "fadd NInf PInf = NaN"
| "fadd PInf _ = PInf"
| "fadd _ PInf = PInf"
| "fadd NInf _ = NInf"
| "fadd _ NInf = NInf"

definition fsub :: "pyfloat \<Rightarrow> pyfloat \<Rightarrow> pyfloat" where
  "fsub a b = fadd a (fneg b)"

definition finf :: "bool \<Rightarrow> pyfloat" where
  "finf negative = (if negative then NInf else PInf)"

text \<open>The sign of a float that is not NaN: \<open>-1\<close>, \<open>0\<close> or \<open>1\<close>.\<close>

fun fsgn :: "pyfloat \<Rightarrow> rat" where
  "fsgn (Fin x) = sgn x" | "fsgn PInf = 1" | "fsgn NInf = - 1" | "fsgn NaN = 0"

definition fmul :: "pyfloat \<Rightarrow> pyfloat \<Rightarrow> pyfloat" where
  "fmul a b = (case (a, b) of
       (Fin x, Fin y) \<Rightarrow> to_float (x * y)
     | _ \<Rightarrow> if a = NaN \<or> b = NaN \<or> fsgn a * fsgn b = 0 then NaN else finf (fsgn a * fsgn b < 0))"

definition fdiv :: "pyfloat \<Rightarrow> pyfloat \<Rightarrow> pyfloat res" where
  "fdiv a b = (if b = Fin 0 then Inl ZeroDivisionError else Inr (case (a, b) of
       (NaN, _) \<Rightarrow> NaN
     | (_, NaN) \<Rightarrow> NaN
     | (Fin x, Fin y) \<Rightarrow> to_float (x / y)
     | (Fin x, _) \<Rightarrow> Fin 0
     | (_, Fin y) \<Rightarrow> finf (fsgn a * sgn y < 0)
     | (_, _) \<Rightarrow> NaN))"

text \<open>Truth of a float, absolute value, floor and ceiling (raising on infinities and NaN).\<close>

definition fbool :: "pyfloat \<Rightarrow> bool" where
  "fbool a \<longleftrightarrow> a \<noteq> Fin 0"

fun fabs :: "pyfloat \<Rightarrow> pyfloat" where
  "fabs (Fin x) = Fin \<bar>x\<bar>" | "fabs PInf = PInf" | "fabs NInf = PInf" | "fabs NaN = NaN"

fun math_floor :: "pyfloat \<Rightarrow> int res" where
  "math_floor (Fin x) = Inr \<lfloor>x\<rfloor>"
| "math_floor NaN = Inl ValueError"
| "math_floor _ = Inl OverflowError"

fun math_ceil :: "pyfloat \<Rightarrow> int res" where
  "math_ceil (Fin x) = Inr \<lceil>x\<rceil>"
| "math_ceil NaN = Inl ValueError"
| "math_ceil _ = Inl OverflowError"

text \<open>\<^verbatim>\<open>int(x)\<close> on a float truncates towards zero.\<close>

fun float_to_int :: "pyfloat \<Rightarrow> int res" where
  "float_to_int (Fin x) = Inr (if 0 \<le> x then \<lfloor>x\<rfloor> else \<lceil>x\<rceil>)"
| "float_to_int NaN = Inl ValueError"
| "float_to_int _ = Inl OverflowError"

text \<open>The values a Python float can have: representable, and below the overflow threshold.\<close>

fun wf_float :: "pyfloat \<Rightarrow> bool" where
  "wf_float (Fin x) = (float64 x \<and> \<bar>x\<bar> < 2 ^ 1024)"
| "wf_float _ = True"

lemma wf_to_float: "wf_float (to_float x)"
  by (auto simp: to_float_def Let_def b64.rep_rnd abs_less_iff)

lemma to_float_wf: "wf_float (Fin x) \<Longrightarrow> to_float x = Fin x"
  unfolding to_float_def Let_def by (simp add: b64.rnd_rep abs_less_iff del: power_numeral)

lemma to_float_Fin: "\<bar>rnd64 x\<bar> < 2 ^ 1024 \<Longrightarrow> to_float x = Fin (rnd64 x)"
  unfolding to_float_def Let_def by (simp add: abs_less_iff del: power_numeral)

lemma to_float_between:
  assumes "wf_float (Fin a)" "wf_float (Fin b)" "a \<le> x" "x \<le> b"
  shows "to_float x = Fin (rnd64 x) \<and> a \<le> rnd64 x \<and> rnd64 x \<le> b"
proof -
  have "a \<le> rnd64 x" "rnd64 x \<le> b"
    using assms b64.rnd_ge[of a x] b64.rnd_le[of x b] by auto
  moreover have "\<bar>rnd64 x\<bar> < 2 ^ 1024"
    using calculation assms(1,2) by (auto simp: abs_less_iff simp del: power_numeral)
  ultimately show ?thesis by (simp add: to_float_Fin del: power_numeral)
qed

text \<open>Evaluation takes a shortcut for dyadic rationals, which are floats as they are.\<close>

lemma float64_dyadic:
  assumes "\<bar>p\<bar> \<le> 2 ^ 53" "k \<le> 60"
  shows "float64 (of_int p / 2 ^ k)"
  unfolding float64_def
proof (intro exI conjI)
  show "of_int p / 2 ^ k = of_int p * (2::rat) powi (- int k)" by (simp add: power_int_minus field_simps)
qed (use assms in simp_all)

definition dyadic :: "rat \<Rightarrow> bool" where
  "dyadic x \<longleftrightarrow> (case quotient_of x of (p, q) \<Rightarrow>
     \<bar>p\<bar> \<le> 9007199254740992 \<and> bit_len q \<le> 61 \<and> q = 2 ^ (bit_len q - 1))"

lemma dyadic_float64: assumes "dyadic x" shows "float64 x"
proof -
  obtain p q where q: "quotient_of x = (p, q)" by fastforce
  define k where "k = bit_len q - 1"
  have p: "\<bar>p\<bar> \<le> 2 ^ 53" "k \<le> 60" "q = 2 ^ k" using assms by (auto simp: dyadic_def q k_def)
  have "x = of_int p / 2 ^ k" using quotient_of_div[OF q] by (simp add: p(3))
  with float64_dyadic[OF p(1,2)] show ?thesis by simp
qed

lemma to_float_code:
  "to_float x = (if dyadic x then Fin x
     else (let r = rnd64 x in if 2 ^ 1024 \<le> r then PInf else if r \<le> - (2 ^ 1024) then NInf else Fin r))"
proof (cases "dyadic x")
  case True
  have "\<bar>x\<bar> < 2 ^ 1024" 
  proof -
    obtain p q where q: "quotient_of x = (p, q)" by fastforce
    have p: "\<bar>p\<bar> \<le> 2 ^ 53" using True by (simp add: dyadic_def q)
    have "1 \<le> q" using quotient_of_denom_pos[OF q] by simp
    then have "\<bar>x\<bar> \<le> of_int \<bar>p\<bar>" unfolding quotient_of_div[OF q]
      by (simp add: abs_div_pos[symmetric] divide_le_eq mult_left_le_one_le mult.commute mult_le_cancel_right1)
    also have "\<dots> \<le> of_int (2 ^ 53)" using p by (simp only: of_int_le_iff)
    also have "\<dots> = (2::rat) ^ 53" by simp
    also have "\<dots> < 2 ^ 1024" by (rule power_strict_increasing) simp_all
    finally show ?thesis .
  qed
  then show ?thesis using True dyadic_float64[OF True]
    by (simp add: to_float_def rnd64_id abs_less_iff del: power_numeral)
qed (simp add: to_float_def)

lemma wf_float_int: "\<bar>n\<bar> \<le> 2 ^ 53 \<Longrightarrow> wf_float (Fin (of_int n))"
proof -
  assume n: "\<bar>n\<bar> \<le> 2 ^ 53"
  then have "\<bar>of_int n :: rat\<bar> \<le> 2 ^ 53" by (metis of_int_abs of_int_le_iff of_int_numeral of_int_power)
  also have "\<dots> < (2::rat) ^ 1024" by (rule power_strict_increasing) simp_all
  finally show ?thesis using n by (simp add: float64_of_int del: power_numeral)
qed

lemma to_float_of_int: "\<bar>n\<bar> \<le> 2 ^ 53 \<Longrightarrow> to_float (of_int n) = Fin (of_int n)"
  by (rule to_float_wf[OF wf_float_int])

lemma int_to_float_small: "\<bar>n\<bar> \<le> 2 ^ 53 \<Longrightarrow> int_to_float n = Inr (Fin (of_int n))"
  by (simp add: int_to_float_def to_float_of_int)

text \<open>
  The library's order on floats puts NaN last.  On floats that are not NaN it is Python's
  order, so the sorts of the library are Python's sorts for lists without NaN.
\<close>

instantiation pyfloat :: linorder
begin

definition less_eq_pyfloat :: "pyfloat \<Rightarrow> pyfloat \<Rightarrow> bool" where
  "less_eq_pyfloat a b \<longleftrightarrow> b = NaN \<or> fle a b"

definition less_pyfloat :: "pyfloat \<Rightarrow> pyfloat \<Rightarrow> bool" where
  "less_pyfloat a b \<longleftrightarrow> a \<noteq> NaN \<and> (b = NaN \<or> flt a b)"

instance
proof
  fix x y z :: pyfloat
  show "(x < y) = (x \<le> y \<and> \<not> y \<le> x)"
    by (cases x; cases y) (auto simp: less_pyfloat_def less_eq_pyfloat_def fle_def feq_def)
  show "x \<le> x" by (cases x) (auto simp: less_eq_pyfloat_def fle_def feq_def)
  show "x \<le> y \<Longrightarrow> y \<le> z \<Longrightarrow> x \<le> z"
    by (cases x; cases y; cases z) (auto simp: less_eq_pyfloat_def fle_def feq_def)
  show "x \<le> y \<Longrightarrow> y \<le> x \<Longrightarrow> x = y"
    by (cases x; cases y) (auto simp: less_eq_pyfloat_def fle_def feq_def)
  show "x \<le> y \<or> y \<le> x"
    by (cases x; cases y) (auto simp: less_eq_pyfloat_def fle_def feq_def)
qed

end

lemma flt_iff_less: "a \<noteq> NaN \<Longrightarrow> b \<noteq> NaN \<Longrightarrow> flt a b \<longleftrightarrow> a < b"
  by (simp add: less_pyfloat_def)

lemma fle_iff_le: "a \<noteq> NaN \<Longrightarrow> b \<noteq> NaN \<Longrightarrow> fle a b \<longleftrightarrow> a \<le> b"
  by (simp add: less_eq_pyfloat_def)

lemma Fin_le_iff [simp]: "Fin x \<le> Fin y \<longleftrightarrow> x \<le> y"
  by (auto simp: less_eq_pyfloat_def fle_def feq_def)

lemma Fin_less_iff [simp]: "Fin x < Fin y \<longleftrightarrow> x < y"
  by (simp add: less_pyfloat_def)

lemma fle_Fin [simp]: "fle (Fin x) (Fin y) \<longleftrightarrow> x \<le> y"
  by (auto simp: fle_def feq_def)

lemma fle_trans: "fle a b \<Longrightarrow> fle b c \<Longrightarrow> fle a c"
  by (cases a; cases b; cases c) (auto simp: fle_def feq_def)

lemma fle_not_NaN: "fle a b \<Longrightarrow> a \<noteq> NaN \<and> b \<noteq> NaN"
  by (cases a; cases b) (auto simp: fle_def feq_def)

lemma to_float_not_NaN [simp]: "to_float x \<noteq> NaN"
  by (simp add: to_float_def Let_def del: power_numeral)

lemma to_float_mono: "x \<le> y \<Longrightarrow> fle (to_float x) (to_float y)"
  using b64.rnd_mono[of x y]
  by (auto simp: to_float_def Let_def fle_def feq_def simp del: power_numeral)

text \<open>Evaluation rounds with integers only, where the result cannot overflow.\<close>

definition rhe_div :: "int \<Rightarrow> int \<Rightarrow> int" where
  "rhe_div a b = (let f = a div b; r = 2 * (a mod b)
     in if r < b then f else if b < r then f + 1 else if even f then f else f + 1)"

lemma rhe_div_eq: "0 < b \<Longrightarrow> rhe_div a b = round_half_even (of_int a / of_int b)"
proof -
  assume b: "0 < b"
  have f: "\<lfloor>of_int a / of_int b :: rat\<rfloor> = a div b" by (rule floor_divide_of_int_eq)
  have "(of_int a :: rat) = of_int (a div b) * of_int b + of_int (a mod b)"
    by (metis div_mult_mod_eq of_int_add of_int_mult)
  then have d: "of_int a / of_int b - of_int (a div b) = (of_int (a mod b) / of_int b :: rat)"
    using b by (simp add: field_simps)
  have lt: "of_int (a mod b) / of_int b < (1/2 :: rat) \<longleftrightarrow> 2 * (a mod b) < b"
    using b by (simp add: divide_less_eq) (metis mult.commute of_int_less_iff of_int_mult of_int_numeral)
  have gt: "(1/2 :: rat) < of_int (a mod b) / of_int b \<longleftrightarrow> b < 2 * (a mod b)"
    using b by (simp add: less_divide_eq) (metis mult.commute of_int_less_iff of_int_mult of_int_numeral)
  show ?thesis unfolding rhe_div_def round_half_even_def Let_def f d lt gt ..
qed

lemma powi_le_quotient:
  assumes "0 < q"
  shows "2 powi e \<le> (of_int p / of_int q :: rat)
    \<longleftrightarrow> (if 0 \<le> e then 2 ^ nat e * q \<le> p else q \<le> p * 2 ^ nat (- e))"
proof (cases "0 \<le> e")
  case True
  then have "2 powi e \<le> (of_int p / of_int q :: rat) \<longleftrightarrow> of_int (2 ^ nat e * q) \<le> (of_int p :: rat)"
    using assms by (simp add: power_int_def le_divide_eq)
  then show ?thesis using True unfolding of_int_le_iff by simp
next
  case False
  then have "2 powi e \<le> (of_int p / of_int q :: rat) \<longleftrightarrow> of_int q \<le> (of_int (p * 2 ^ nat (- e)) :: rat)"
    using assms by (simp add: power_int_def power_one_over divide_le_eq le_divide_eq)
  then show ?thesis using False unfolding of_int_le_iff by simp
qed

lemma ilog2_code [code]:
  "ilog2 x = (let (p, q) = quotient_of x; e = int (bit_len p) - int (bit_len q)
     in if (if 0 \<le> e then 2 ^ nat e * q \<le> p else q \<le> p * 2 ^ nat (- e)) then e else e - 1)"
proof -
  obtain p q where pq: "quotient_of x = (p, q)" by fastforce
  then have "0 < q" "x = of_int p / of_int q" using quotient_of_denom_pos[OF pq] quotient_of_div[OF pq] by auto
  then show ?thesis using powi_le_quotient[of q _ p] unfolding ilog2_def pq Let_def prod.case by (simp only:)
qed

lemma to_float_fast [code]:
  "to_float x = (if dyadic x then Fin x else (let e = ulp_exp x in
     if e \<le> 0 then (let (p, q) = quotient_of x; k = nat (- e)
       in Fin (of_int (rhe_div (p * 2 ^ k) q) / of_int (2 ^ k)))
     else (let r = rnd64 x in if 2 ^ 1024 \<le> r then PInf else if r \<le> - (2 ^ 1024) then NInf else Fin r)))"
proof (cases "dyadic x \<or> 0 < ulp_exp x")
  case True
  then show ?thesis using to_float_code[of x] by (auto simp: Let_def)
next
  case False
  obtain p q where pq: "quotient_of x = (p, q)" by fastforce
  then have q: "0 < q" "x = of_int p / of_int q" using quotient_of_denom_pos[OF pq] quotient_of_div[OF pq] by auto
  have x: "x \<noteq> 0"
  proof
    assume "x = 0"
    then have "dyadic x" by (simp add: dyadic_def bit_len.simps)
    then show False using False by blast
  qed
  let ?e = "ulp_exp x" and ?k = "nat (- ulp_exp x)"
  have e: "2 powi ?e = (1 / 2 ^ ?k :: rat)" using False by (simp add: power_int_def power_one_over)
  have "x / 2 powi ?e = of_int (p * 2 ^ ?k) / of_int q" unfolding e by (subst (1) q(2)) simp
  then have r: "rnd64 x = of_int (rhe_div (p * 2 ^ ?k) q) / of_int (2 ^ ?k)"
    using x by (simp add: rnd64_def rhe_div_eq[OF q(1)] e)
  have "ilog2 \<bar>x\<bar> \<le> 52" using False by (auto simp: ulp_exp_def max_def split: if_splits)
  then have "2 powi (ilog2 \<bar>x\<bar> + 1) \<le> (2 powi 53 :: rat)" unfolding powi_le_iff by simp
  then have "\<bar>x\<bar> \<le> of_int (2 ^ 53)" using ilog2_bounds[of "\<bar>x\<bar>"] x by (simp add: powi_nat)
  then have b: "x \<le> of_int (2 ^ 53)" "of_int (- (2 ^ 53)) \<le> x" unfolding abs_le_iff by simp_all
  have "rnd64 x \<le> of_int (2 ^ 53)" by (rule b64.rnd_le[OF b(1) float64_of_int]) simp
  moreover have "of_int (- (2 ^ 53)) \<le> rnd64 x" by (rule b64.rnd_ge[OF b(2) float64_of_int]) simp
  moreover have "(of_int (2 ^ 53) :: rat) < 2 ^ 1024" using power_strict_increasing[of 53 1024 "2 :: rat"] by simp
  ultimately have "\<bar>rnd64 x\<bar> < 2 ^ 1024" unfolding abs_less_iff of_int_minus by linarith
  then have "to_float x = Fin (rnd64 x)" by (rule to_float_Fin)
  then have "to_float x = Fin (of_int (rhe_div (p * 2 ^ ?k) q) / of_int (2 ^ ?k))" unfolding r .
  moreover have "(dyadic x) = False" "(?e \<le> 0) = True" using False by auto
  ultimately show ?thesis unfolding pq Let_def prod.case by (simp only: if_True if_False)
qed

text \<open>Numbers close to a float.\<close>

lemma to_float_in_binade:
  assumes "x = y / 2 ^ 53" "2 ^ 52 \<le> y" "y < 2 ^ 53" "\<bar>y - of_int m\<bar> < 1/2"
  shows "to_float x = Fin (of_int m / 2 ^ 53)"
proof -
  have p: "(2::rat) powi (- 53) = 1 / 2 ^ 53" by (simp add: power_int_def power_one_over)
  have r: "rnd64 x = of_int m / 2 ^ 53"
    using rnd64_in_binade[OF assms(2,3), of "- 53"] unfolding p round_half_even_eqI[OF assms(4)] assms(1) by simp
  have "y - of_int m < 1/2" "of_int m - y < 1/2" using assms(4) unfolding abs_less_iff by linarith+
  then have "0 < (of_int m :: rat) + 1" "(of_int m :: rat) < of_int (2 ^ 53 + 1)" using assms(2,3) by simp_all
  then have "0 \<le> m" "m \<le> 2 ^ 53" unfolding of_int_less_iff by linarith+
  then have "\<bar>of_int m / 2 ^ 53 :: rat\<bar> \<le> 1" by simp
  also have "\<dots> < (2::rat) ^ 1024" by (rule one_less_power) simp_all
  finally show ?thesis using to_float_Fin[of x] by (simp only: r)
qed

text \<open>A product that is too large by a tiny factor, rounded, has the ceiling of the exact product.\<close>

lemma rnd64_just_above:
  assumes k: "0 < k" "k \<le> 2 ^ 53" and d: "0 \<le> d" "d \<le> 1 / 2 ^ 54"
  shows "rnd64 (of_int k * (1 + d)) = of_int k"
proof -
  have "float64 (of_int k)" by (rule float64_of_int) (use k in simp)
  moreover have "2 powi (- 1000) \<le> (of_int k :: rat)"
    using powi_le_iff[of "- 1000" 0] k(1) by (simp add: order.trans[of _ "1::rat"])
  ultimately obtain m e where x: "of_int k = (of_int m * 2 powi e :: rat)" "2 ^ 52 \<le> m" "m < 2 ^ 53" "- 1052 \<le> e"
    by (rule float64_significand)
  let ?y = "of_int m * (1 + d)"
  have m: "(2::rat) ^ 52 \<le> of_int m" "(of_int m :: rat) \<le> 2 ^ 53 - 1"
    using x(2,3) of_int_le_iff[of "2 ^ 52" m, where 'a = rat] of_int_le_iff[of m "2 ^ 53 - 1", where 'a = rat] by simp_all
  have "of_int m * d \<le> (2 ^ 53 - 1) * (1 / 2 ^ 54)" using m d by (intro mult_mono) simp_all
  then have s: "of_int m * d < 1 / 2" "0 \<le> of_int m * d" using m d by simp_all
  have "rnd64 (?y * 2 powi e) = of_int (round_half_even ?y) * 2 powi e"
    using m s x(4) by (intro rnd64_in_binade) (simp_all add: distrib_left)
  also have "round_half_even ?y = m" using s by (intro round_half_even_eqI) (simp add: distrib_left)
  finally show ?thesis using x(1) by (simp add: mult.assoc mult.commute mult.left_commute)
qed

lemma ceil_just_above:
  assumes t: "0 < t" "t \<le> 2 ^ 48" "10 * t = of_int p" and d: "0 \<le> d" "d \<le> 1 / 2 ^ 54"
  shows "\<lceil>rnd64 (t * (1 + d))\<rceil> = \<lceil>t\<rceil>"
proof (cases "t = of_int \<lfloor>t\<rfloor>")
  case True
  then obtain k where k: "t = of_int k" by blast
  have "of_int k \<le> (of_int (2 ^ 48) :: rat)" using t(2) k by simp
  then have "k \<le> 2 ^ 48" unfolding of_int_le_iff .
  then have "rnd64 (t * (1 + d)) = t" using rnd64_just_above[of k d] t(1) d unfolding k by simp
  then show ?thesis by simp
next
  case False
  let ?f = "\<lfloor>t\<rfloor>" and ?x = "t * (1 + d)"
  have f: "of_int ?f < t" "t < of_int ?f + 1" using False by linarith+
  have "of_int (10 * ?f) < (of_int p :: rat)" "(of_int p :: rat) < of_int (10 * ?f + 10)" using f t(3) by simp_all
  then have "10 * ?f + 1 \<le> p" "p \<le> 10 * ?f + 9" by linarith+
  then have g: "of_int ?f + 1/10 \<le> t" "t \<le> of_int ?f + 9/10" using t(3) by linarith+
  have "t * d \<le> 2 ^ 48 * (1 / 2 ^ 54)" using t d by (intro mult_mono) simp_all
  then have x: "t \<le> ?x" "?x \<le> t + 1/64" using t d by (simp_all add: distrib_left)
  have "(of_int ?f :: rat) < 2 ^ 48" using t(2) f(1) by linarith
  then have "(of_int ?f :: rat) < of_int (2 ^ 48)" by (simp only: of_int_power of_int_numeral)
  then have F: "0 \<le> ?f" "?f < 2 ^ 48" using t(1) unfolding of_int_less_iff by linarith+
  have "float64 (of_int (?f + 1))" by (rule float64_of_int) (use F in simp)
  moreover have "?x \<le> of_int (?f + 1)" using x g by simp
  ultimately have "rnd64 ?x \<le> of_int (?f + 1)" by (rule b64.rnd_le[rotated])
  moreover have "of_int ?f < rnd64 ?x"
  proof -
    have "?x < 2 ^ 49" using x t(2) by simp
    then have "ilog2 \<bar>?x\<bar> < 49"
      using ilog2_bounds[of "\<bar>?x\<bar>"] x t(1) powi_less_iff[of "ilog2 \<bar>?x\<bar>" 49] by simp
    then have "ulp_exp ?x \<le> - 4" by (simp add: ulp_exp_def)
    then have "2 powi ulp_exp ?x \<le> (2::rat) powi (- 4)" unfolding powi_le_iff .
    moreover have "(2::rat) powi (- 4) = 1 / 16" by (simp add: power_int_def power_one_over)
    ultimately have "\<bar>rnd64 ?x - ?x\<bar> \<le> 1 / 32" using rnd64_error[of ?x] by linarith
    then show ?thesis using x g by linarith
  qed
  ultimately have "\<lceil>rnd64 ?x\<rceil> = ?f + 1" by linarith
  then show ?thesis using f by linarith
qed

section \<open>Rounding errors\<close>

text \<open>A rounded number is within one part in \<open>2 ^ 53\<close> of the exact one, unless it is subnormal.\<close>

lemma rnd64_relative:
  assumes "2 powi (- 1022) \<le> \<bar>x\<bar>"
  shows "\<bar>rnd64 x - x\<bar> \<le> \<bar>x\<bar> / 2 ^ 53"
proof -
  have pos: "0 < \<bar>x\<bar>" using assms by (rule less_le_trans[rotated]) simp
  note b = ilog2_bounds[OF pos]
  have "(2::rat) powi (- 1022) < 2 powi (ilog2 \<bar>x\<bar> + 1)" using assms b by linarith
  then have "- 1022 < ilog2 \<bar>x\<bar> + 1" unfolding powi_less_iff .
  then have "ulp_exp x = ilog2 \<bar>x\<bar> - 52" by (simp add: ulp_exp_def)
  then have "(2::rat) powi ulp_exp x / 2 = 2 powi ilog2 \<bar>x\<bar> / 2 ^ 53"
    using powi_add[of "ilog2 \<bar>x\<bar>" "- 52"] by (simp add: power_int_minus)
  also have "\<dots> \<le> \<bar>x\<bar> / 2 ^ 53" using b by (intro divide_right_mono) simp_all
  finally show ?thesis using rnd64_error[of x] by linarith
qed

text \<open>The integers \<^verbatim>\<open>float()\<close> accepts: those below the midpoint of the largest float and \<open>2 ^ 1024\<close>.\<close>

lemma rnd64_threshold: "rnd64 (2 ^ 1024 - 2 ^ 970) = 2 ^ 1024"
proof -
  have "(2::rat) ^ 1024 - 2 ^ 970 = (2 ^ 53 - 1/2) * 2 powi 971"
    by (simp add: power_int_def)
  moreover have "rnd64 ((2 ^ 53 - 1/2) * 2 powi 971) = of_int (round_half_even (2 ^ 53 - 1/2)) * 2 powi 971"
    by (rule rnd64_in_binade) simp_all
  moreover have "round_half_even (2 ^ 53 - 1/2) = 2 ^ 53"
    using rhe_add_half[of "2 ^ 53 - 1"] by simp
  ultimately show ?thesis by (simp add: power_int_def)
qed

lemma rnd64_below_threshold:
  assumes "x < 2 ^ 1024 - 2 ^ 970"
  shows "rnd64 x < 2 ^ 1024"
proof (cases "x \<le> (2 ^ 53 - 1) * 2 powi 971")
  case True
  have f: "float64 ((2 ^ 53 - 1) * 2 powi 971)" unfolding float64_def
    by (rule exI[of _ "2 ^ 53 - 1"], rule exI[of _ 971]) simp
  have "rnd64 x \<le> (2 ^ 53 - 1) * 2 powi 971" by (rule b64.rnd_le[OF True f])
  also have "\<dots> < 2 ^ 1024" by (simp add: power_int_def)
  finally show ?thesis .
next
  case False
  define y where "y = x / 2 powi 971"
  have x: "x = y * 2 powi 971" by (simp add: y_def)
  have "y * 2 powi 971 < (2 ^ 53 - 1/2) * 2 powi 971"
    using assms unfolding x by (simp add: power_int_def)
  then have hi: "y < 2 ^ 53 - 1/2" by (rule mult_right_less_imp_less) simp
  have "(2 ^ 53 - 1) * 2 powi 971 < y * 2 powi 971" using False unfolding x by simp
  then have lo: "2 ^ 53 - 1 < y" by (rule mult_right_less_imp_less) simp
  have "rnd64 x = of_int (round_half_even y) * 2 powi 971"
    unfolding x by (rule rnd64_in_binade) (use lo hi in simp_all)
  also have "round_half_even y = 2 ^ 53 - 1"
    by (rule round_half_even_eqI) (use lo hi in \<open>simp add: abs_less_iff\<close>)
  also have "of_int (2 ^ 53 - 1) * (2::rat) powi 971 < 2 ^ 1024" by (simp add: power_int_def)
  finally show ?thesis .
qed

lemma rnd64_overflow_iff: "rnd64 x < 2 ^ 1024 \<longleftrightarrow> x < 2 ^ 1024 - 2 ^ 970"
proof
  assume a: "rnd64 x < 2 ^ 1024"
  show "x < 2 ^ 1024 - 2 ^ 970"
  proof (rule ccontr)
    assume "\<not> x < 2 ^ 1024 - 2 ^ 970"
    then have "rnd64 (2 ^ 1024 - 2 ^ 970) \<le> rnd64 x" by (intro rnd64_mono) (simp only: not_less)
    then show False using a unfolding rnd64_threshold by (simp only: not_less[symmetric] simp_thms)
  qed
qed (rule rnd64_below_threshold)

lemma rnd64_of_int_overflow: "rnd64 (of_int n) < 2 ^ 1024 \<longleftrightarrow> n < 2 ^ 1024 - 2 ^ 970"
proof -
  have "rnd64 (of_int n) < 2 ^ 1024 \<longleftrightarrow> (of_int n :: rat) < of_int (2 ^ 1024 - 2 ^ 970)"
    unfolding rnd64_overflow_iff by (simp only: of_int_diff of_int_power of_int_numeral)
  then show ?thesis unfolding of_int_less_iff .
qed

lemma int_to_float_iff:
  "int_to_float n = (if \<bar>n\<bar> < 2 ^ 1024 - 2 ^ 970 then Inr (Fin (rnd64 (of_int n))) else Inl OverflowError)"
proof -
  have dn: "- (2 ^ 1024) < rnd64 (of_int n) \<longleftrightarrow> - n < 2 ^ 1024 - 2 ^ 970"
    using rnd64_of_int_overflow[of "- n"] by (simp only: of_int_minus rnd64_minus minus_less_iff)
  have n: "\<bar>n\<bar> < 2 ^ 1024 - 2 ^ 970 \<longleftrightarrow> rnd64 (of_int n) < 2 ^ 1024 \<and> - (2 ^ 1024) < rnd64 (of_int n)"
    unfolding rnd64_of_int_overflow dn abs_less_iff ..
  define T :: rat where "T = 2 ^ 1024"
  have "to_float (of_int n) = (if T \<le> rnd64 (of_int n) then PInf else if rnd64 (of_int n) \<le> - T then NInf
      else Fin (rnd64 (of_int n)))" by (simp only: to_float_def Let_def T_def)
  then show ?thesis unfolding int_to_float_def n T_def[symmetric] by auto
qed

lemma rnd64_factor:
  assumes "x = 0 \<or> 2 powi (- 1000) \<le> \<bar>x\<bar>"
  shows "\<exists>d. \<bar>d\<bar> \<le> 1 / 2 ^ 53 \<and> rnd64 x = x * (1 + d)"
proof (cases "x = 0")
  case False
  have "(2::rat) powi (- 1022) \<le> 2 powi (- 1000)" unfolding powi_le_iff by simp
  then have "2 powi (- 1022) \<le> \<bar>x\<bar>" using assms False by linarith
  from rnd64_relative[OF this] have "\<bar>rnd64 x - x\<bar> / \<bar>x\<bar> \<le> 1 / 2 ^ 53"
    using False by (simp add: pos_divide_le_eq)
  moreover have "rnd64 x = x * (1 + (rnd64 x - x) / x)" using False by (simp add: field_simps)
  ultimately show ?thesis by (intro exI[of _ "(rnd64 x - x) / x"]) simp
qed (auto intro: exI[of _ 0])

lemma to_float_factor:
  assumes "x = 0 \<or> 2 powi (- 1000) \<le> \<bar>x\<bar>" "\<bar>x\<bar> \<le> 2 ^ 1000"
  shows "\<exists>d. \<bar>d\<bar> \<le> 1 / 2 ^ 53 \<and> to_float x = Fin (x * (1 + d))"
proof -
  obtain d where d: "\<bar>d\<bar> \<le> 1 / 2 ^ 53" "rnd64 x = x * (1 + d)" using rnd64_factor[OF assms(1)] by blast
  have "\<bar>1 + d\<bar> \<le> 2" using d(1) by (simp add: abs_le_iff)
  then have "\<bar>rnd64 x\<bar> \<le> 2 ^ 1000 * 2" unfolding d(2) abs_mult using assms(2) by (intro mult_mono) simp_all
  also have "\<dots> = 2 ^ 1001" by (simp only: power_Suc[symmetric] mult.commute[of _ 2] eval_nat_numeral)
  also have "\<dots> < (2::rat) ^ 1024" by (rule power_strict_increasing) simp_all
  finally have "to_float x = Fin (x * (1 + d))" unfolding d(2)[symmetric] by (rule to_float_Fin)
  then show ?thesis using d(1) by blast
qed

lemma float64_grid:
  assumes "float64 x" "2 powi k \<le> x" "- 1022 \<le> k"
  shows "\<exists>m. x = of_int m * 2 powi (k - 52)"
proof -
  let ?e = "ulp_exp x" and ?m = "round_half_even (x / 2 powi ulp_exp x)"
  have pos: "0 < x" using assms(2) by (rule less_le_trans[rotated]) simp
  have "2 powi k < (2 powi (ilog2 x + 1) :: rat)" using ilog2_bounds[OF pos] assms(2) by linarith
  then have "k < ilog2 x + 1" unfolding powi_less_iff .
  then have e: "k - 52 \<le> ?e" using assms(3) pos by (simp add: ulp_exp_def)
  then have "2 powi ?e = of_int (2 ^ nat (?e - (k - 52))) * (2::rat) powi (k - 52)"
    using powi_add[of "?e - (k - 52)" "k - 52"] powi_nat[of "?e - (k - 52)"] by simp
  moreover have "x = of_int ?m * 2 powi ?e" using b64.rnd_rep[OF assms(1)] pos by (simp add: rnd64_def)
  ultimately have "x = of_int (?m * 2 ^ nat (?e - (k - 52))) * 2 powi (k - 52)" by (metis mult.assoc of_int_mult)
  then show ?thesis by blast
qed

lemma float64_difference:
  assumes "float64 x" "float64 y" "2 powi k \<le> x" "2 powi k \<le> y" "- 1022 \<le> k" "x \<noteq> y"
  shows "2 powi (k - 52) \<le> \<bar>x - y\<bar>"
proof -
  obtain m n where x: "x = of_int m * 2 powi (k - 52)" "y = of_int n * 2 powi (k - 52)"
    using float64_grid[OF assms(1,3,5)] float64_grid[OF assms(2,4,5)] by blast
  then have "1 \<le> \<bar>m - n\<bar>" using assms(6) by auto
  then have "(1::rat) \<le> of_int \<bar>m - n\<bar>" by (simp only: of_int_1_le_iff)
  then have "1 * 2 powi (k - 52) \<le> of_int \<bar>m - n\<bar> * (2::rat) powi (k - 52)" by (intro mult_right_mono) simp_all
  also have "\<dots> = \<bar>x - y\<bar>" unfolding x by (simp add: abs_mult flip: left_diff_distrib of_int_diff of_int_abs)
  finally show ?thesis by simp
qed

lemma three_roundings:
  assumes "\<bar>a\<bar> \<le> u" "\<bar>b\<bar> \<le> u" "\<bar>c\<bar> \<le> u" "u = 1 / 2 ^ 53"
  shows "\<bar>(1 + a) * (1 + b) * (1 + c) - 1\<bar> \<le> (1 / 2 ^ 51 :: rat)"
proof -
  have m: "\<bar>a * b\<bar> \<le> u * u" "\<bar>b * c\<bar> \<le> u * u" "\<bar>a * c\<bar> \<le> u * u" "\<bar>a * b * c\<bar> \<le> u * u * u"
    unfolding abs_mult using assms(1-3) by (intro mult_mono; simp add: assms(4))+
  have "(1 + a) * (1 + b) * (1 + c) - 1 = a + b + c + a * b + b * c + a * c + a * b * c" by (simp add: algebra_simps)
  then have "\<bar>(1 + a) * (1 + b) * (1 + c) - 1\<bar> \<le> 3 * u + 3 * (u * u) + u * u * u"
    using assms(1-3) m unfolding abs_le_iff by linarith
  also have "\<dots> \<le> 1 / 2 ^ 51" by (simp add: assms(4))
  finally show ?thesis .
qed

text \<open>Numbers far from overflow and underflow, and how far arithmetic moves them.\<close>

definition in_scale :: "nat \<Rightarrow> rat \<Rightarrow> bool" where
  "in_scale k x \<longleftrightarrow> (x = 0 \<or> 1 / 2 ^ k \<le> \<bar>x\<bar>) \<and> \<bar>x\<bar> \<le> 2 ^ k"

lemma in_scale_to_float:
  assumes "in_scale k x" "k \<le> 1000"
  shows "\<exists>d. \<bar>d\<bar> \<le> 1 / 2 ^ 53 \<and> to_float x = Fin (x * (1 + d))"
proof (rule to_float_factor)
  have "(2::rat) ^ k \<le> 2 ^ 1000" using assms(2) by (rule power_increasing) simp
  moreover have "(2::rat) powi (- 1000) \<le> 2 powi (- int k)" unfolding powi_le_iff using assms(2) by simp
  then have "(2::rat) powi (- 1000) \<le> 1 / 2 ^ k" by (simp only: power_int_minus power_int_of_nat inverse_eq_divide)
  ultimately show "x = 0 \<or> 2 powi (- 1000) \<le> \<bar>x\<bar>" "\<bar>x\<bar> \<le> 2 ^ 1000"
    using assms(1) unfolding in_scale_def by linarith+
qed

lemma in_scale_mult:
  assumes "in_scale k x" "1 / 2 ^ m \<le> \<bar>y\<bar>" "\<bar>y\<bar> \<le> 2 ^ m"
  shows "in_scale (k + m) (x * y)"
proof -
  have "\<bar>x\<bar> * \<bar>y\<bar> \<le> 2 ^ k * 2 ^ m" using assms by (intro mult_mono) (simp_all add: in_scale_def)
  moreover have "x * y = 0 \<or> 1 / 2 ^ k * (1 / 2 ^ m) \<le> \<bar>x\<bar> * \<bar>y\<bar>"
    using assms by (cases "x = 0") (auto simp: in_scale_def intro!: mult_mono simp del: times_divide_eq_left times_divide_eq_right)
  ultimately show ?thesis by (simp add: in_scale_def abs_mult power_add)
qed

lemma in_scale_factor: "in_scale k x \<Longrightarrow> \<bar>e\<bar> \<le> 1 / 2 ^ 53 \<Longrightarrow> in_scale (k + 1) (x * (1 + e))"
proof (rule in_scale_mult)
  assume "\<bar>e\<bar> \<le> 1 / 2 ^ 53"
  then have "- (1 / 2) \<le> e" "e \<le> 1 / 2" by (simp_all add: abs_le_iff)
  then show "1 / 2 ^ 1 \<le> \<bar>1 + e\<bar>" "\<bar>1 + e\<bar> \<le> 2 ^ 1" by simp_all
qed

lemma in_scale_div:
  assumes "in_scale k x" "1 / 2 ^ m \<le> s" "s \<le> 2 ^ m"
  shows "in_scale (k + m) (x / s)"
proof -
  have s: "0 < s" using assms(2) by (rule less_le_trans[rotated]) simp
  then have "1 / 2 ^ m \<le> \<bar>1 / s\<bar>" "\<bar>1 / s\<bar> \<le> 2 ^ m"
    using assms(2,3) by (simp_all add: field_simps)
  from in_scale_mult[OF assms(1) this] show ?thesis by simp
qed

lemma relative_bound: "z = x * y \<Longrightarrow> \<bar>y - 1\<bar> \<le> u \<Longrightarrow> \<bar>z - x\<bar> \<le> \<bar>x\<bar> * (u :: rat)"
proof -
  assume z: "z = x * y" and "\<bar>y - 1\<bar> \<le> u"
  have "z - x = x * (y - 1)" by (simp add: z algebra_simps)
  then show ?thesis using \<open>\<bar>y - 1\<bar> \<le> u\<close> by (simp add: abs_mult mult_left_mono)
qed

end
