(* ===== verification/NumText.thy ===== *)
theory NumText
  imports PyText Binary64
begin

text \<open>
  Numbers as text: \<^verbatim>\<open>int(s)\<close> and \<^verbatim>\<open>float(s)\<close> with their white space and
  underscore rules, \<^verbatim>\<open>str(n)\<close>, the \<^verbatim>\<open>.3f\<close> and \<^verbatim>\<open>g\<close> formats
  and the shortest round-trip \<^verbatim>\<open>repr\<close> of a float.
\<close>

section \<open>Integers\<close>

definition is_num_space :: "char \<Rightarrow> bool" where
  "is_num_space c \<longleftrightarrow> (9 \<le> code c \<and> code c \<le> 13) \<or> code c \<in> {32, 133, 160}"

definition digit_val :: "char \<Rightarrow> int" where
  "digit_val c = int (code c) - 48"

definition digit_char :: "int \<Rightarrow> char" where
  "digit_char n = char_of (nat (48 + n))"

definition digits_value :: "string \<Rightarrow> int" where
  "digits_value ds = foldl (\<lambda>a c. 10 * a + digit_val c) 0 ds"

text \<open>Decimal digits with single underscores between them; None is \<^verbatim>\<open>ValueError\<close>.\<close>

fun scan_int :: "int \<Rightarrow> string \<Rightarrow> int option" where
  "scan_int acc [] = Some acc"
| "scan_int acc (c # cs) =
     (if is_decimal c then scan_int (10 * acc + digit_val c) cs
      else if c = CHR ''_'' then
        (case cs of d # ds \<Rightarrow> if is_decimal d then scan_int (10 * acc + digit_val d) ds else None
                  | [] \<Rightarrow> None)
      else None)"

definition int_digits :: "string \<Rightarrow> int option" where
  "int_digits s = (case s of [] \<Rightarrow> None
     | c # cs \<Rightarrow> if is_decimal c then scan_int (digit_val c) cs else None)"

definition py_int :: "string \<Rightarrow> int option" where
  "py_int s = (let t = strip_where is_num_space s in
     case t of [] \<Rightarrow> None
     | c # cs \<Rightarrow> if c = CHR ''-'' then map_option uminus (int_digits cs)
                else if c = CHR ''+'' then int_digits cs else int_digits t)"

fun digits_of :: "int \<Rightarrow> string" where
  "digits_of n =
     (if n < 10 then [digit_char n] else digits_of (n div 10) @ [digit_char (n mod 10)])"

declare digits_of.simps [simp del]

definition string_of_int :: "int \<Rightarrow> string" where
  "string_of_int n = (if n < 0 then CHR ''-'' # digits_of (- n) else digits_of n)"

lemma code_digit_char: "0 \<le> n \<Longrightarrow> n < 10 \<Longrightarrow> int (code (digit_char n)) = 48 + n"
  by (simp add: code_def digit_char_def)

lemma digit_char_decimal: "0 \<le> n \<Longrightarrow> n < 10 \<Longrightarrow> is_decimal (digit_char n)"
  using code_digit_char[of n] by (simp add: is_decimal_def)

lemma digit_val_char: "0 \<le> n \<Longrightarrow> n < 10 \<Longrightarrow> digit_val (digit_char n) = n"
  by (simp add: digit_val_def code_digit_char)

lemma digits_of_decimal: "0 \<le> n \<Longrightarrow> c \<in> set (digits_of n) \<Longrightarrow> is_decimal c"
proof (induction n rule: digits_of.induct)
  case (1 n)
  then show ?case
    by (auto simp: digits_of.simps[of n] digit_char_decimal split: if_splits)
qed

lemma digits_of_not_Nil [simp]: "digits_of n \<noteq> []"
  by (simp add: digits_of.simps[of n])

lemma digits_value_snoc: "digits_value (ds @ [c]) = 10 * digits_value ds + digit_val c"
  by (simp add: digits_value_def)

lemma digits_value_digits_of: "0 \<le> n \<Longrightarrow> digits_value (digits_of n) = n"
proof (induction n rule: digits_of.induct)
  case (1 n)
  then show ?case
    by (auto simp: digits_of.simps[of n] digits_value_snoc digit_val_char)
      (simp add: digits_value_def digit_val_char)
qed

lemma scan_int_decimal:
  "(\<And>c. c \<in> set ds \<Longrightarrow> is_decimal c) \<Longrightarrow> scan_int acc ds = Some (foldl (\<lambda>a c. 10 * a + digit_val c) acc ds)"
  by (induction ds arbitrary: acc) auto

lemma int_digits_decimal:
  assumes "ds \<noteq> []" "\<And>c. c \<in> set ds \<Longrightarrow> is_decimal c"
  shows "int_digits ds = Some (digits_value ds)"
  using assms by (cases ds) (auto simp: int_digits_def digits_value_def scan_int_decimal)

lemma is_decimal_not_special:
  "is_decimal c \<Longrightarrow> c \<noteq> CHR ''-'' \<and> c \<noteq> CHR ''+'' \<and> c \<noteq> CHR ''_'' \<and> \<not> is_num_space c \<and> \<not> is_space c"
  by (auto simp: is_decimal_def code_def is_num_space_def is_space_def)

lemma int_digits_digits_of: "0 \<le> n \<Longrightarrow> int_digits (digits_of n) = Some n"
  using int_digits_decimal[OF digits_of_not_Nil digits_of_decimal[of n]]
  by (simp add: digits_value_digits_of)

lemma py_int_digits_of: "0 \<le> n \<Longrightarrow> py_int (digits_of n) = Some n"
proof -
  assume n: "0 \<le> n"
  let ?s = "digits_of n"
  have d: "c \<in> set ?s \<Longrightarrow> is_decimal c" for c by (rule digits_of_decimal[OF n])
  then have "strip_where is_num_space ?s = ?s"
    by (intro strip_where_id bare_all) (blast dest: is_decimal_not_special)
  moreover obtain c cs where "?s = c # cs" by (cases ?s) auto
  ultimately show ?thesis using d[of c] is_decimal_not_special[of c] int_digits_digits_of[OF n]
    by (simp add: py_int_def Let_def)
qed

lemma digits_of_no_slash: "0 \<le> n \<Longrightarrow> CHR ''/'' \<notin> set (digits_of n)"
  by (auto dest: digits_of_decimal simp: is_decimal_def code_def)

lemma py_int_string_of_int: "py_int (string_of_int n) = Some n"
proof (cases "n < 0")
  case True
  let ?s = "digits_of (- n)"
  have d: "c \<in> set ?s \<Longrightarrow> is_decimal c" for c by (rule digits_of_decimal[of "- n"]) (use True in auto)
  have "\<not> is_num_space (last ?s)"
    using d[OF last_in_set] is_decimal_not_special by simp
  then have "bare is_num_space (CHR ''-'' # ?s)"
    by (simp add: bare_def is_num_space_def[of "CHR ''-''"] code_def[of "CHR ''-''"])
  then have "strip_where is_num_space (CHR ''-'' # ?s) = CHR ''-'' # ?s" by (rule strip_where_id)
  then show ?thesis using True int_digits_digits_of[of "- n"]
    by (simp add: py_int_def string_of_int_def Let_def)
next
  case False
  then show ?thesis using py_int_digits_of[of n] by (simp add: string_of_int_def)
qed

lemma string_of_int_inj: "string_of_int m = string_of_int n \<longleftrightarrow> m = n"
  by (metis option.inject py_int_string_of_int)

section \<open>Reading floats\<close>

fun digit_tail :: "string \<Rightarrow> string \<times> string" where
  "digit_tail [] = ([], [])"
| "digit_tail (c # cs) =
     (if is_decimal c then (c # fst (digit_tail cs), snd (digit_tail cs))
      else if c = CHR ''_'' then
        (case cs of d # ds \<Rightarrow> if is_decimal d then (d # fst (digit_tail ds), snd (digit_tail ds))
                             else ([], c # cs)
                  | [] \<Rightarrow> ([], c # cs))
      else ([], c # cs))"

definition digit_run :: "string \<Rightarrow> string \<times> string" where
  "digit_run s = (case s of [] \<Rightarrow> ([], [])
     | c # cs \<Rightarrow> if is_decimal c then (c # fst (digit_tail cs), snd (digit_tail cs)) else ([], s))"

definition scan_exponent :: "string \<Rightarrow> int option" where
  "scan_exponent s = (case s of [] \<Rightarrow> Some 0
     | c # cs \<Rightarrow> if c = CHR ''e'' \<or> c = CHR ''E'' then
         (let neg = (cs \<noteq> [] \<and> hd cs = CHR ''-'');
              body = (if cs \<noteq> [] \<and> (hd cs = CHR ''-'' \<or> hd cs = CHR ''+'') then tl cs else cs);
              (ds, r) = digit_run body
          in if ds = [] \<or> r \<noteq> [] then None
             else Some (if neg then - digits_value ds else digits_value ds))
       else None)"

definition scan_decimal :: "string \<Rightarrow> rat option" where
  "scan_decimal s =
     (let (ip, r1) = digit_run s;
          (fp, r2) = (case r1 of [] \<Rightarrow> ([], []) | c # cs \<Rightarrow> if c = CHR ''.'' then digit_run cs else ([], r1))
      in if ip = [] \<and> fp = [] then None
         else map_option (\<lambda>e. of_int (digits_value (ip @ fp)) * 10 powi (e - int (length fp)))
                (scan_exponent r2))"

definition py_float :: "string \<Rightarrow> pyfloat option" where
  "py_float s =
     (let t = strip_where is_num_space s;
          neg = (t \<noteq> [] \<and> hd t = CHR ''-'');
          body = (if t \<noteq> [] \<and> (hd t = CHR ''-'' \<or> hd t = CHR ''+'') then tl t else t)
      in if lower body = ''inf'' \<or> lower body = ''infinity'' then Some (finf neg)
         else if lower body = ''nan'' then Some NaN
         else map_option (\<lambda>r. to_float (if neg then - r else r)) (scan_decimal body))"

section \<open>Writing floats\<close>

definition pad_left :: "nat \<Rightarrow> string \<Rightarrow> string" where
  "pad_left k s = replicate (k - length s) (CHR ''0'') @ s"

definition fixed_digits :: "nat \<Rightarrow> int \<Rightarrow> string" where
  "fixed_digits k n = digits_of (n div 10 ^ k)
     @ (if k = 0 then [] else CHR ''.'' # pad_left k (digits_of (n mod 10 ^ k)))"

definition special_text :: "pyfloat \<Rightarrow> string" where
  "special_text x = (case x of PInf \<Rightarrow> ''inf'' | NInf \<Rightarrow> ''-inf'' | _ \<Rightarrow> ''nan'')"

text \<open>\<^verbatim>\<open>f"{x:.kf}"\<close>.\<close>

definition format_fixed :: "nat \<Rightarrow> pyfloat \<Rightarrow> string" where
  "format_fixed k x = (case x of
     Fin q \<Rightarrow> (if q < 0 then ''-'' else []) @ fixed_digits k (round_half_even (\<bar>q\<bar> * 10 ^ k))
   | _ \<Rightarrow> special_text x)"

definition ilog10 :: "rat \<Rightarrow> int" where
  "ilog10 x = (let (p, q) = quotient_of x;
                   e = int (length (digits_of p)) - int (length (digits_of q))
               in if 10 powi e \<le> x then e else e - 1)"

text \<open>The digits of a positive number rounded to \<open>p\<close> significant ones, and its decimal exponent.\<close>

definition sig_digits :: "nat \<Rightarrow> rat \<Rightarrow> string \<times> int" where
  "sig_digits p x =
     (let e = ilog10 x; m = round_half_even (x * 10 powi (int p - 1 - e))
      in if m = 10 ^ p then (digits_of (m div 10), e + 1) else (digits_of m, e))"

definition rstrip_zeros :: "string \<Rightarrow> string" where
  "rstrip_zeros s = rev (dropWhile (\<lambda>c. c = CHR ''0'') (rev s))"

definition exponent_text :: "int \<Rightarrow> string" where
  "exponent_text e = ''e'' @ (if e < 0 then ''-'' else ''+'') @ pad_left 2 (digits_of \<bar>e\<bar>)"

definition with_point :: "string \<Rightarrow> string \<Rightarrow> string" where
  "with_point ip fp = (if fp = [] then ip else ip @ ''.'' @ fp)"

text \<open>Positional notation of digits \<open>ds\<close> whose first has weight \<open>10 ^ e\<close>.\<close>

definition positional :: "string \<Rightarrow> int \<Rightarrow> string \<times> string" where
  "positional ds e =
     (if e < 0 then (''0'', replicate (nat (- e - 1)) (CHR ''0'') @ ds)
      else (let k = Suc (nat e); full = ds @ replicate (k - length ds) (CHR ''0'')
            in (take k full, drop k full)))"

definition format_g :: "nat \<Rightarrow> pyfloat \<Rightarrow> string" where
  "format_g p x = (case x of
     Fin q \<Rightarrow> if q = 0 then ''0'' else
       (let (ds, e) = sig_digits p \<bar>q\<bar>; ds' = rstrip_zeros ds; s = (if q < 0 then ''-'' else [])
        in if - 4 \<le> e \<and> e < int p
           then s @ (let (ip, fp) = positional ds' e in with_point ip fp)
           else s @ with_point (take 1 ds') (drop 1 ds') @ exponent_text e)
   | _ \<Rightarrow> special_text x)"

text \<open>
  \<^verbatim>\<open>repr(x)\<close>: the fewest significant digits that read back as \<open>x\<close>; among the two
  neighbours with that many digits the nearer one (the even one of two equally near).
\<close>

definition digit_candidates :: "nat \<Rightarrow> rat \<Rightarrow> int list" where
  "digit_candidates p q =
     (let y = q * 10 powi (int p - 1 - ilog10 q); n = round_half_even y; f = \<lfloor>y\<rfloor>
      in [n, if n = f then f + 1 else f])"

definition reads_back :: "nat \<Rightarrow> rat \<Rightarrow> int \<Rightarrow> bool" where
  "reads_back p q m \<longleftrightarrow> to_float (of_int m * 10 powi (ilog10 q - int p + 1)) = Fin q"

fun shortest :: "nat \<Rightarrow> nat \<Rightarrow> rat \<Rightarrow> string \<times> int" where
  "shortest 0 p q = sig_digits 17 q"
| "shortest (Suc fuel) p q =
     (case find (reads_back p q) (digit_candidates p q) of
        Some m \<Rightarrow> if m = 10 ^ p then (digits_of (m div 10), ilog10 q + 1)
                 else (digits_of m, ilog10 q)
      | None \<Rightarrow> shortest fuel (Suc p) q)"

definition float_repr :: "pyfloat \<Rightarrow> string" where
  "float_repr x = (case x of
     Fin q \<Rightarrow> if q = 0 then ''0.0'' else
       (let (ds, e) = shortest 16 1 \<bar>q\<bar>; ds' = rstrip_zeros ds; s = (if q < 0 then ''-'' else [])
        in if - 4 \<le> e \<and> e < 16
           then s @ (let (ip, fp) = positional ds' e in ip @ ''.'' @ (if fp = [] then ''0'' else fp))
           else s @ with_point (take 1 ds') (drop 1 ds') @ exponent_text e)
   | _ \<Rightarrow> special_text x)"

end
