(* ===== verification/PyDict.thy ===== *)
theory PyDict
  imports Prelude "HOL-Library.AList"
begin

text \<open>
  Python dictionaries: association lists that keep the insertion order of their keys, as
  \<^verbatim>\<open>dict\<close> does.  What the tools use of them is stated as the locale
  \<open>ordered_dict\<close>; its two extensions are the patterns the tools build on it, grouping
  (\<^verbatim>\<open>setdefault(k, []).append(x)\<close>) and counting (\<^verbatim>\<open>d[k] = d.get(k, 0) + 1\<close>).
\<close>

section \<open>First occurrences\<close>

text \<open>The elements of a list in the order of their first occurrences: the loop
  \<^verbatim>\<open>if x not in seen: seen.append(x)\<close>.\<close>

definition add_new :: "'a list \<Rightarrow> 'a \<Rightarrow> 'a list" where
  "add_new seen x = (if x \<in> set seen then seen else seen @ [x])"

definition uniq :: "'a list \<Rightarrow> 'a list" where
  "uniq xs = foldl add_new [] xs"

lemma set_add_new [simp]: "set (add_new seen x) = insert x (set seen)"
  by (auto simp: add_new_def)

lemma distinct_add_new [simp]: "distinct (add_new seen x) = distinct seen"
  by (auto simp: add_new_def)

lemma uniq_Nil [simp]: "uniq [] = []"
  by (simp add: uniq_def)

lemma uniq_snoc: "uniq (xs @ [x]) = add_new (uniq xs) x"
  by (simp add: uniq_def)

lemma set_uniq [simp]: "set (uniq xs) = set xs"
  by (induction xs rule: rev_induct) (simp_all add: uniq_snoc)

lemma distinct_uniq [simp]: "distinct (uniq xs)"
  by (induction xs rule: rev_induct) (simp_all add: uniq_snoc)

lemma uniq_distinct: "distinct xs \<Longrightarrow> uniq xs = xs"
  by (induction xs rule: rev_induct) (simp_all add: uniq_snoc add_new_def)

lemma uniq_idem [simp]: "uniq (uniq xs) = uniq xs"
  by (simp add: uniq_distinct)

lemma subseq_snoc: "subseq xs ys \<Longrightarrow> subseq xs (ys @ [y])"
  by (metis append_Nil2 list_emb_append_mono list_emb_Nil)

lemma subseq_uniq: "subseq (uniq xs) xs"
  by (induction xs rule: rev_induct) (auto simp: uniq_snoc add_new_def subseq_snoc)

lemma uniq_eq_Nil_iff [simp]: "uniq xs = [] \<longleftrightarrow> xs = []"
  by (metis set_empty set_uniq)

section \<open>The dictionary interface\<close>

type_synonym ('k, 'v) dict = "('k \<times> 'v) list"

abbreviation keys_of :: "('k, 'v) dict \<Rightarrow> 'k list" where
  "keys_of d \<equiv> map fst d"

locale ordered_dict =
  fixes emp :: 'd and upd :: "'k \<Rightarrow> 'v \<Rightarrow> 'd \<Rightarrow> 'd"
    and look :: "'d \<Rightarrow> 'k \<Rightarrow> 'v option" and ks :: "'d \<Rightarrow> 'k list"
  assumes look_emp: "look emp k = None"
    and look_upd: "look (upd k v d) k' = (if k' = k then Some v else look d k')"
    and ks_emp: "ks emp = []"
    and ks_upd: "ks (upd k v d) = add_new (ks d) k"
begin

lemma ks_fold: "ks (foldl (\<lambda>d x. upd (f x) (g d x) d) emp xs) = uniq (map f xs)"
  by (induction xs rule: rev_induct) (simp_all add: ks_emp ks_upd uniq_snoc)

lemma distinct_ks_fold: "distinct (ks (foldl (\<lambda>d x. upd (f x) (g d x) d) emp xs))"
  by (simp add: ks_fold)

text \<open>Storing one value per element leaves the last value stored under each key.\<close>

lemma look_fold_last:
  "look (foldl (\<lambda>d x. upd (f x) (g x) d) emp xs) k
   = (case filter (\<lambda>x. f x = k) xs of [] \<Rightarrow> None | ys \<Rightarrow> Some (g (last ys)))"
proof (induction xs rule: rev_induct)
  case (snoc x xs)
  then show ?case by (cases "filter (\<lambda>x. f x = k) xs") (auto simp: look_upd split: list.splits)
qed (simp add: look_emp)

end

locale grouping_dict = ordered_dict emp upd look ks
  for emp :: 'd and upd :: "'k \<Rightarrow> 'x list \<Rightarrow> 'd \<Rightarrow> 'd"
    and look :: "'d \<Rightarrow> 'k \<Rightarrow> 'x list option" and ks :: "'d \<Rightarrow> 'k list"
begin

lemma look_groups:
  "look (foldl (\<lambda>d x. upd (f x) ((case look d (f x) of None \<Rightarrow> [] | Some ys \<Rightarrow> ys) @ [x]) d) emp xs) k
   = (case filter (\<lambda>x. f x = k) xs of [] \<Rightarrow> None | ys \<Rightarrow> Some ys)"
proof (induction xs rule: rev_induct)
  case (snoc x xs)
  then show ?case
    by (cases "filter (\<lambda>x. f x = k) xs") (auto simp: look_upd split: list.splits option.splits)
qed (simp add: look_emp)

end

locale counting_dict = ordered_dict emp upd look ks
  for emp :: 'd and upd :: "'k \<Rightarrow> nat \<Rightarrow> 'd \<Rightarrow> 'd"
    and look :: "'d \<Rightarrow> 'k \<Rightarrow> nat option" and ks :: "'d \<Rightarrow> 'k list"
begin

lemma look_counts:
  "look (foldl (\<lambda>d x. upd x (Suc (case look d x of None \<Rightarrow> 0 | Some n \<Rightarrow> n)) d) emp xs) k
   = (if k \<in> set xs then Some (count_list xs k) else None)"
proof (induction xs rule: rev_induct)
  case (snoc x xs)
  then show ?case by (auto simp: look_upd)
qed (simp add: look_emp)

end

section \<open>The dictionary of the model\<close>

lemma map_of_AList_update: "map_of (AList.update k v d) k' = (if k' = k then Some v else map_of d k')"
  by (simp add: update_conv)

lemma keys_AList_update: "keys_of (AList.update k v d) = add_new (keys_of d) k"
  by (simp add: add_new_def update_keys)

interpretation pd: ordered_dict "[]" AList.update map_of "\<lambda>d. map fst d"
  by unfold_locales (simp_all add: map_of_AList_update keys_AList_update)

interpretation pg: grouping_dict "[]" AList.update map_of "\<lambda>d. map fst d"
  by unfold_locales

interpretation pc: counting_dict "[]" AList.update map_of "\<lambda>d. map fst d"
  by unfold_locales

text \<open>Grouping the elements of a list by a key, and counting the elements of a list.\<close>

definition group_by :: "('a \<Rightarrow> 'k) \<Rightarrow> 'a list \<Rightarrow> ('k, 'a list) dict" where
  "group_by f xs =
     foldl (\<lambda>d x. AList.update (f x) ((case map_of d (f x) of None \<Rightarrow> [] | Some ys \<Rightarrow> ys) @ [x]) d) [] xs"

definition counter :: "'a list \<Rightarrow> ('a, nat) dict" where
  "counter xs = foldl (\<lambda>d x. AList.update x (Suc (case map_of d x of None \<Rightarrow> 0 | Some n \<Rightarrow> n)) d) [] xs"

lemma keys_group_by: "keys_of (group_by f xs) = uniq (map f xs)"
  unfolding group_by_def by (rule pd.ks_fold)

lemma look_group_by:
  "map_of (group_by f xs) k = (case filter (\<lambda>x. f x = k) xs of [] \<Rightarrow> None | ys \<Rightarrow> Some ys)"
  unfolding group_by_def by (rule pg.look_groups)

lemma distinct_group_by: "distinct (keys_of (group_by f xs))"
  by (simp add: keys_group_by)

lemma group_by_memD:
  assumes "(k, ys) \<in> set (group_by f xs)"
  shows "ys = filter (\<lambda>x. f x = k) xs \<and> ys \<noteq> []"
proof -
  have "map_of (group_by f xs) k = Some ys"
    using assms distinct_group_by[of f xs] by (simp add: map_of_is_SomeI)
  then show ?thesis by (auto simp: look_group_by split: list.splits)
qed

lemma map_snd_group_by:
  "map snd (group_by f xs) = map (\<lambda>k. filter (\<lambda>x. f x = k) xs) (uniq (map f xs))"
proof -
  have "map snd (group_by f xs) = map (\<lambda>p. filter (\<lambda>x. f x = fst p) xs) (group_by f xs)"
    by (rule map_cong[OF refl]) (auto dest: group_by_memD)
  also have "\<dots> = map (\<lambda>k. filter (\<lambda>x. f x = k) xs) (keys_of (group_by f xs))" by simp
  finally show ?thesis by (simp only: keys_group_by)
qed

lemma sum_indicator:
  "distinct ks \<Longrightarrow> a \<in> set ks \<Longrightarrow> (\<Sum>k\<leftarrow>ks. if a = k then 1 else 0) = (1::nat)"
proof (induction ks)
  case (Cons k ks)
  have "a \<notin> set ks \<Longrightarrow> (\<Sum>k\<leftarrow>ks. if a = k then 1 else 0) = (0::nat)" by (induction ks) auto
  then show ?case using Cons by auto
qed simp

lemma sum_length_filter:
  "distinct ks \<Longrightarrow> set (map f xs) \<subseteq> set ks \<Longrightarrow> (\<Sum>k\<leftarrow>ks. length (filter (\<lambda>x. f x = k) xs)) = length xs"
proof (induction xs)
  case (Cons x xs)
  have "(\<Sum>k\<leftarrow>ks. length (filter (\<lambda>y. f y = k) (x # xs)))
        = (\<Sum>k\<leftarrow>ks. (if f x = k then 1 else 0) + length (filter (\<lambda>y. f y = k) xs))"
    by (rule arg_cong[where f = sum_list], rule map_cong[OF refl]) simp
  also have "\<dots> = (\<Sum>k\<leftarrow>ks. if f x = k then 1 else 0) + (\<Sum>k\<leftarrow>ks. length (filter (\<lambda>y. f y = k) xs))"
    by (simp add: sum_list_addf)
  also have "(\<Sum>k\<leftarrow>ks. if f x = k then 1 else 0) = (1::nat)"
    using Cons.prems by (intro sum_indicator) auto
  finally show ?case using Cons by simp
qed simp

text \<open>No element is lost or invented by grouping.\<close>

lemma group_by_length: "(\<Sum>g\<leftarrow>group_by f xs. length (snd g)) = length xs"
proof -
  have "(\<Sum>g\<leftarrow>group_by f xs. length (snd g)) = sum_list (map length (map snd (group_by f xs)))"
    by (simp add: comp_def)
  also have "\<dots> = (\<Sum>k\<leftarrow>uniq (map f xs). length (filter (\<lambda>x. f x = k) xs))"
    by (simp add: map_snd_group_by comp_def)
  also have "\<dots> = length xs" by (rule sum_length_filter) simp_all
  finally show ?thesis .
qed

lemma keys_counter: "keys_of (counter xs) = uniq xs"
  unfolding counter_def using pd.ks_fold[of "\<lambda>x. x"] by simp

lemma look_counter: "map_of (counter xs) k = (if k \<in> set xs then Some (count_list xs k) else None)"
  unfolding counter_def by (rule pc.look_counts)

lemma counter_memD: "(k, n) \<in> set (counter xs) \<Longrightarrow> n = count_list xs k \<and> k \<in> set xs"
proof -
  assume "(k, n) \<in> set (counter xs)"
  moreover have "distinct (keys_of (counter xs))" by (simp add: keys_counter)
  ultimately have "map_of (counter xs) k = Some n" by (simp add: map_of_is_SomeI)
  then show ?thesis by (simp add: look_counter split: if_splits)
qed

lemma counter_total: "(\<Sum>p\<leftarrow>counter xs. snd p) = length xs"
proof -
  have eq: "snd p = length (filter (\<lambda>x. x = fst p) xs)" if "p \<in> set (counter xs)" for p
  proof -
    have "(=) (fst p) = (\<lambda>x. x = fst p)" by auto
    then show ?thesis using counter_memD[of "fst p" "snd p" xs] that
      by (simp add: count_list_eq_length_filter)
  qed
  have "(\<Sum>p\<leftarrow>counter xs. snd p) = (\<Sum>p\<leftarrow>counter xs. length (filter (\<lambda>x. x = fst p) xs))"
    using eq by (metis (mono_tags, lifting) map_eq_conv)
  also have "\<dots> = (\<Sum>k\<leftarrow>keys_of (counter xs). length (filter (\<lambda>x. x = k) xs))"
    by (simp add: comp_def)
  also have "\<dots> = length xs" using sum_length_filter[of "uniq xs" "\<lambda>x. x" xs] by (simp add: keys_counter)
  finally show ?thesis .
qed

text \<open>\<^verbatim>\<open>dict(sorted(d.items()))\<close>.\<close>

definition sorted_items :: "('k::linorder, 'v) dict \<Rightarrow> ('k, 'v) dict" where
  "sorted_items d = sort_key fst d"

lemma set_sorted_items [simp]: "set (sorted_items d) = set d"
  by (simp add: sorted_items_def)

lemma sum_sorted_items:
  fixes f :: "'k::linorder \<times> 'v \<Rightarrow> 'n::comm_monoid_add"
  shows "(\<Sum>p\<leftarrow>sorted_items d. f p) = (\<Sum>p\<leftarrow>d. f p)"
proof -
  have "mset (map f (sorted_items d)) = mset (map f d)" by (simp add: sorted_items_def)
  then show ?thesis by (metis sum_mset_sum_list)
qed

end
