(* ===== verification/PyJson.thy ===== *)
theory PyJson
  imports NumText PyDict
begin

text \<open>
  JSON values as \<^verbatim>\<open>json.loads\<close> returns them, the Python conversions the tools apply
  to them (\<^verbatim>\<open>int\<close>, \<^verbatim>\<open>float\<close>, \<^verbatim>\<open>str\<close>, \<^verbatim>\<open>bool\<close>,
  \<^verbatim>\<open>dict\<close>), and the parser: a tokenizer that walks the text once and a parser that
  walks the tokens once with an explicit stack, so neither can fail to return.
\<close>

datatype json =
    JNull | JBool bool | JInt int | JFloat pyfloat | JStr string
  | JList "json list" | JObj "(string \<times> json) list"

definition opt_json :: "json option \<Rightarrow> json" where
  "opt_json v = (case v of None \<Rightarrow> JNull | Some x \<Rightarrow> x)"

text \<open>Object access: \<^verbatim>\<open>d.get(k, default)\<close>; other values have no \<^verbatim>\<open>get\<close>.\<close>

definition jget :: "(string \<times> json) list \<Rightarrow> string \<Rightarrow> json \<Rightarrow> json" where
  "jget d k def = (case map_of d k of None \<Rightarrow> def | Some v \<Rightarrow> v)"

definition as_obj :: "json \<Rightarrow> (string \<times> json) list res" where
  "as_obj v = (case v of JObj d \<Rightarrow> Inr d | _ \<Rightarrow> Inl AttributeError)"

definition json_get :: "json \<Rightarrow> string \<Rightarrow> json \<Rightarrow> json res" where
  "json_get v k def = bindR (as_obj v) (\<lambda>d. Inr (jget d k def))"

section \<open>Conversions\<close>

definition of_option :: "exn \<Rightarrow> 'a option \<Rightarrow> 'a res" where
  "of_option e x = (case x of None \<Rightarrow> Inl e | Some v \<Rightarrow> Inr v)"

fun json_int :: "json \<Rightarrow> int res" where
  "json_int (JInt n) = Inr n"
| "json_int (JBool b) = Inr (if b then 1 else 0)"
| "json_int (JFloat x) = float_to_int x"
| "json_int (JStr s) = of_option ValueError (py_int s)"
| "json_int _ = Inl TypeError"

fun json_float :: "json \<Rightarrow> pyfloat res" where
  "json_float (JInt n) = int_to_float n"
| "json_float (JBool b) = Inr (Fin (if b then 1 else 0))"
| "json_float (JFloat x) = Inr x"
| "json_float (JStr s) = of_option ValueError (py_float s)"
| "json_float _ = Inl TypeError"

fun json_bool :: "json \<Rightarrow> bool" where
  "json_bool JNull = False"
| "json_bool (JBool b) = b"
| "json_bool (JInt n) = (n \<noteq> 0)"
| "json_bool (JFloat x) = fbool x"
| "json_bool (JStr s) = (s \<noteq> [])"
| "json_bool (JList xs) = (xs \<noteq> [])"
| "json_bool (JObj d) = (d \<noteq> [])"

text \<open>\<^verbatim>\<open>repr\<close> of a string: the quote it needs, and escapes.\<close>

definition hex_digit :: "nat \<Rightarrow> char" where
  "hex_digit n = (if n < 10 then char_of (48 + n) else char_of (87 + n))"

definition repr_char :: "char \<Rightarrow> char \<Rightarrow> string" where
  "repr_char q c = (if c = q \<or> c = CHR 0x5C then [CHR 0x5C, c]
     else if code c = 9 then [CHR 0x5C, CHR ''t''] else if code c = 10 then [CHR 0x5C, CHR ''n'']
     else if code c = 13 then [CHR 0x5C, CHR ''r'']
     else if code c < 32 \<or> (127 \<le> code c \<and> code c \<le> 160) \<or> code c = 173
       then [CHR 0x5C, CHR ''x'', hex_digit (code c div 16), hex_digit (code c mod 16)]
     else [c])"

definition repr_str :: "string \<Rightarrow> string" where
  "repr_str s = (let q = (if CHR 0x27 \<in> set s \<and> CHR 0x22 \<notin> set s then CHR 0x22 else CHR 0x27)
                 in q # concat (map (repr_char q) s) @ [q])"

fun json_repr :: "json \<Rightarrow> string" where
  "json_repr JNull = ''None''"
| "json_repr (JBool b) = (if b then ''True'' else ''False'')"
| "json_repr (JInt n) = string_of_int n"
| "json_repr (JFloat x) = float_repr x"
| "json_repr (JStr s) = repr_str s"
| "json_repr (JList xs) = ''['' @ join '', '' (map json_repr xs) @ '']''"
| "json_repr (JObj d) = ''{'' @ join '', '' (map (\<lambda>(k, v). repr_str k @ '': '' @ json_repr v) d) @ ''}''"

definition json_str :: "json \<Rightarrow> string" where
  "json_str v = (case v of JStr s \<Rightarrow> s | _ \<Rightarrow> json_repr v)"

text \<open>\<^verbatim>\<open>v in (None, "")\<close>.\<close>

definition none_or_empty :: "json \<Rightarrow> bool" where
  "none_or_empty v \<longleftrightarrow> v = JNull \<or> v = JStr []"

text \<open>
  \<^verbatim>\<open>dict(v)\<close>: a copy of an object, or the pairs of an iterable of two-element
  iterables.  Entries under keys that are not strings are dropped: no lookup here uses one.
\<close>

definition hashable :: "json \<Rightarrow> bool" where
  "hashable v \<longleftrightarrow> (case v of JList _ \<Rightarrow> False | JObj _ \<Rightarrow> False | _ \<Rightarrow> True)"

definition pair_of_json :: "json \<Rightarrow> (json \<times> json) res" where
  "pair_of_json v = (case v of
     JList [k, x] \<Rightarrow> if hashable k then Inr (k, x) else Inl TypeError
   | JList _ \<Rightarrow> Inl ValueError
   | JStr [a, b] \<Rightarrow> Inr (JStr [a], JStr [b])
   | JStr _ \<Rightarrow> Inl ValueError
   | JObj [(a, _), (b, _)] \<Rightarrow> Inr (JStr a, JStr b)
   | JObj _ \<Rightarrow> Inl ValueError
   | _ \<Rightarrow> Inl TypeError)"

definition add_pair :: "(string \<times> json) list \<Rightarrow> json \<times> json \<Rightarrow> (string \<times> json) list" where
  "add_pair d p = (case fst p of JStr k \<Rightarrow> AList.update k (snd p) d | _ \<Rightarrow> d)"

definition json_dict :: "json \<Rightarrow> (string \<times> json) list res" where
  "json_dict v = (case v of
     JObj d \<Rightarrow> Inr d
   | JList xs \<Rightarrow> bindR (traverse pair_of_json xs) (\<lambda>ps. Inr (foldl add_pair [] ps))
   | JStr [] \<Rightarrow> Inr []
   | JStr _ \<Rightarrow> Inl ValueError
   | _ \<Rightarrow> Inl TypeError)"

section \<open>Tokens\<close>

datatype jtok = TObj | TEndObj | TArr | TEndArr | TColon | TComma | TStr string | TVal json

datatype jscan = Outside | InWord string | InStr string | InEsc string | InHex string nat nat

text \<open>A bare word is a constant or a number without superfluous leading zeros.\<close>

definition json_number :: "string \<Rightarrow> json option" where
  "json_number w =
     (let neg = (w \<noteq> [] \<and> hd w = CHR ''-''); body = (if neg then tl w else w);
          ip = takeWhile is_decimal body; r1 = dropWhile is_decimal body;
          (fp, r2) = (if r1 \<noteq> [] \<and> hd r1 = CHR ''.''
                      then (takeWhile is_decimal (tl r1), dropWhile is_decimal (tl r1)) else ([], r1));
          dot = (r1 \<noteq> [] \<and> hd r1 = CHR ''.'')
      in if ip = [] \<or> (length ip > 1 \<and> hd ip = CHR ''0'') \<or> (dot \<and> fp = []) then None
         else if r2 = [] \<and> \<not> dot then Some (JInt (if neg then - digits_value ip else digits_value ip))
         else if CHR ''_'' \<in> set r2 then None
         else map_option (\<lambda>e. let v = of_int (digits_value (ip @ fp)) * 10 powi (e - int (length fp))
                              in JFloat (to_float (if neg then - v else v))) (scan_exponent r2))"

definition json_word :: "string \<Rightarrow> json option" where
  "json_word w =
     (if w = ''null'' then Some JNull else if w = ''true'' then Some (JBool True)
      else if w = ''false'' then Some (JBool False) else if w = ''NaN'' then Some (JFloat NaN)
      else if w = ''Infinity'' then Some (JFloat PInf) else if w = ''-Infinity'' then Some (JFloat NInf)
      else json_number w)"

definition json_space :: "char \<Rightarrow> bool" where
  "json_space c \<longleftrightarrow> code c \<in> {9, 10, 13, 32}"

definition punct :: "char \<Rightarrow> jtok option" where
  "punct c = (if c = CHR ''{'' then Some TObj else if c = CHR ''}'' then Some TEndObj
     else if c = CHR ''['' then Some TArr else if c = CHR '']'' then Some TEndArr
     else if c = CHR '':'' then Some TColon else if c = CHR '','' then Some TComma else None)"

definition hex_val :: "char \<Rightarrow> nat option" where
  "hex_val c = (if is_decimal c then Some (code c - 48)
     else if 97 \<le> code c \<and> code c \<le> 102 then Some (code c - 87)
     else if 65 \<le> code c \<and> code c \<le> 70 then Some (code c - 55) else None)"

definition escape_char :: "char \<Rightarrow> char option" where
  "escape_char c = (if c = CHR 0x22 \<or> c = CHR 0x5C \<or> c = CHR ''/'' then Some c
     else if c = CHR ''b'' then Some (CHR 0x08) else if c = CHR ''f'' then Some (CHR 0x0C)
     else if c = CHR ''n'' then Some (CHR 0x0A) else if c = CHR ''r'' then Some (CHR 0x0D)
     else if c = CHR ''t'' then Some (CHR 0x09) else None)"

definition cons_tok :: "jtok option \<Rightarrow> jtok list option \<Rightarrow> jtok list option" where
  "cons_tok t ts = (case (t, ts) of (Some x, Some xs) \<Rightarrow> Some (x # xs) | _ \<Rightarrow> None)"

text \<open>A word or a string in progress is kept reversed.\<close>

fun json_tokens :: "jscan \<Rightarrow> string \<Rightarrow> jtok list option" where
  "json_tokens Outside [] = Some []"
| "json_tokens (InWord w) [] = cons_tok (map_option TVal (json_word (rev w))) (Some [])"
| "json_tokens _ [] = None"
| "json_tokens Outside (c # cs) =
     (if json_space c then json_tokens Outside cs
      else if c = CHR 0x22 then json_tokens (InStr []) cs
      else (case punct c of Some t \<Rightarrow> cons_tok (Some t) (json_tokens Outside cs)
                          | None \<Rightarrow> json_tokens (InWord [c]) cs))"
| "json_tokens (InWord w) (c # cs) =
     (let word = map_option TVal (json_word (rev w)) in
      if json_space c then cons_tok word (json_tokens Outside cs)
      else if c = CHR 0x22 then cons_tok word (json_tokens (InStr []) cs)
      else (case punct c of Some t \<Rightarrow> cons_tok word (cons_tok (Some t) (json_tokens Outside cs))
                          | None \<Rightarrow> json_tokens (InWord (c # w)) cs))"
| "json_tokens (InStr w) (c # cs) =
     (if c = CHR 0x22 then cons_tok (Some (TStr (rev w))) (json_tokens Outside cs)
      else if c = CHR 0x5C then json_tokens (InEsc w) cs
      else if code c < 32 then None
      else json_tokens (InStr (c # w)) cs)"
| "json_tokens (InEsc w) (c # cs) =
     (if c = CHR ''u'' then json_tokens (InHex w 4 0) cs
      else (case escape_char c of Some d \<Rightarrow> json_tokens (InStr (d # w)) cs | None \<Rightarrow> None))"
| "json_tokens (InHex w k v) (c # cs) =
     (case hex_val c of None \<Rightarrow> None
      | Some h \<Rightarrow> if k = 1 then (if 16 * v + h < 256 then json_tokens (InStr (char_of (16 * v + h) # w)) cs
                                else None)
                 else json_tokens (InHex w (k - 1) (16 * v + h)) cs)"

section \<open>The parser\<close>

datatype jframe = FArr "json list" | FObj "(string \<times> json) list" | FVal "(string \<times> json) list" string

datatype jmode = WantValue | WantValueOrEnd | WantKey | WantKeyOrEnd | WantColon string | AfterValue | Done json

text \<open>What a finished value does to the innermost open container.\<close>

fun finish_value :: "json \<Rightarrow> jframe list \<Rightarrow> jmode \<times> jframe list" where
  "finish_value v [] = (Done v, [])"
| "finish_value v (FArr xs # st) = (AfterValue, FArr (xs @ [v]) # st)"
| "finish_value v (FVal d k # st) = (AfterValue, FObj (AList.update k v d) # st)"
| "finish_value v (FObj d # st) = (AfterValue, FObj d # st)"

definition begin_value :: "jtok \<Rightarrow> jframe list \<Rightarrow> (jmode \<times> jframe list) option" where
  "begin_value t st = (case t of
     TObj \<Rightarrow> Some (WantKeyOrEnd, FObj [] # st)
   | TArr \<Rightarrow> Some (WantValueOrEnd, FArr [] # st)
   | TStr s \<Rightarrow> Some (finish_value (JStr s) st)
   | TVal v \<Rightarrow> Some (finish_value v st)
   | _ \<Rightarrow> None)"

definition json_step :: "jtok \<Rightarrow> jmode \<Rightarrow> jframe list \<Rightarrow> (jmode \<times> jframe list) option" where
  "json_step t m st = (case m of
     WantValue \<Rightarrow> begin_value t st
   | WantValueOrEnd \<Rightarrow> (case (t, st) of
         (TEndArr, FArr xs # st') \<Rightarrow> Some (finish_value (JList xs) st')
       | _ \<Rightarrow> begin_value t st)
   | WantKey \<Rightarrow> (case t of TStr k \<Rightarrow> Some (WantColon k, st) | _ \<Rightarrow> None)
   | WantKeyOrEnd \<Rightarrow> (case (t, st) of
         (TStr k, _) \<Rightarrow> Some (WantColon k, st)
       | (TEndObj, FObj d # st') \<Rightarrow> Some (finish_value (JObj d) st')
       | _ \<Rightarrow> None)
   | WantColon k \<Rightarrow> (case (t, st) of
         (TColon, FObj d # st') \<Rightarrow> Some (WantValue, FVal d k # st')
       | _ \<Rightarrow> None)
   | AfterValue \<Rightarrow> (case (t, st) of
         (TComma, FArr xs # st') \<Rightarrow> Some (WantValue, st)
       | (TComma, FObj d # st') \<Rightarrow> Some (WantKey, st)
       | (TEndArr, FArr xs # st') \<Rightarrow> Some (finish_value (JList xs) st')
       | (TEndObj, FObj d # st') \<Rightarrow> Some (finish_value (JObj d) st')
       | _ \<Rightarrow> None)
   | Done v \<Rightarrow> None)"

fun json_parse :: "jmode \<Rightarrow> jframe list \<Rightarrow> jtok list \<Rightarrow> json option" where
  "json_parse m st [] = (case m of Done v \<Rightarrow> Some v | _ \<Rightarrow> None)"
| "json_parse m st (t # ts) =
     (case json_step t m st of None \<Rightarrow> None | Some (m', st') \<Rightarrow> json_parse m' st' ts)"

text \<open>\<^verbatim>\<open>json.loads(text)\<close>; None is \<^verbatim>\<open>JSONDecodeError\<close>.\<close>

definition json_loads :: "string \<Rightarrow> json option" where
  "json_loads s = (case json_tokens Outside s of None \<Rightarrow> None | Some ts \<Rightarrow> json_parse WantValue [] ts)"

end
