(* ===== verification/PathMeta.thy ===== *)
theory PathMeta
  imports PyPath PyJson
begin

text \<open>
  \<^verbatim>\<open>tools/ghalo_analyze.py\<close>, the text side: optional integers, the metadata files
  (\<^verbatim>\<open>key=value\<close> lines and Slurm tokens), and what a result path says about a run
  (system, ROCm version, suite, time stamp, backend, label, node and rank counts).
\<close>

section \<open>Optional values\<close>

definition opt_str :: "string option \<Rightarrow> json" where
  "opt_str v = (case v of None \<Rightarrow> JNull | Some s \<Rightarrow> JStr s)"

text \<open>Python's \<^verbatim>\<open>a or b\<close> for an optional string \<open>a\<close>.\<close>

definition or_str :: "string option \<Rightarrow> string \<Rightarrow> string" where
  "or_str a b = (case a of Some s \<Rightarrow> if s = [] then b else s | None \<Rightarrow> b)"

definition dict_get :: "(string \<times> 'v) list \<Rightarrow> string \<Rightarrow> 'v \<Rightarrow> 'v" where
  "dict_get d k def = (case map_of d k of None \<Rightarrow> def | Some v \<Rightarrow> v)"

definition parse_int :: "json \<Rightarrow> int option" where
  "parse_int value = (if none_or_empty value then None else py_int (json_str value))"

text \<open>The first run of characters that \<^verbatim>\<open>str.isdigit\<close> accepts.\<close>

fun first_digits :: "string \<Rightarrow> string \<Rightarrow> string" where
  "first_digits digits [] = digits"
| "first_digits digits (c # cs) =
     (if isdigit c then first_digits (digits @ [c]) cs
      else if digits \<noteq> [] then digits else first_digits digits cs)"

definition parse_first_int :: "json \<Rightarrow> int option res" where
  "parse_first_int value =
     (if none_or_empty value then Inr None
      else let digits = first_digits [] (json_str value) in
        if digits \<noteq> [] then bindR (of_option ValueError (py_int digits)) (\<lambda>n. Inr (Some n)) else Inr None)"

section \<open>Metadata files\<close>

definition add_metadata_line :: "(string, string) dict \<Rightarrow> string \<Rightarrow> (string, string) dict" where
  "add_metadata_line values line = (case split_once (CHR ''='') line of
     None \<Rightarrow> values
   | Some (key, v) \<Rightarrow> AList.update (strip key) (strip v) values)"

definition parse_metadata_text :: "string \<Rightarrow> (string, string) dict" where
  "parse_metadata_text text = foldl add_metadata_line [] (splitlines text)"

definition add_slurm_token :: "(string, string) dict \<Rightarrow> string \<Rightarrow> (string, string) dict" where
  "add_slurm_token values token = (case split_once (CHR ''='') token of
     None \<Rightarrow> values
   | Some (key, v) \<Rightarrow> AList.update key v values)"

definition parse_slurm_text :: "string \<Rightarrow> (string, string) dict" where
  "parse_slurm_text text = foldl add_slurm_token [] (split_words (replace_char LF (CHR '' '') text))"

section \<open>Result paths\<close>

definition infer_system_from_path :: "path \<Rightarrow> string" where
  "infer_system_from_path path = (case index_of ''results'' path of
     Some index \<Rightarrow> if index + 1 < length path then path ! (index + 1) else []
   | None \<Rightarrow> [])"

definition KNOWN_BACKENDS :: "string list" where
  "KNOWN_BACKENDS = [''mpi-hip'', ''rccl'', ''mpi'']"

text \<open>\<^verbatim>\<open>\d{8}T\d{6}Z\<close>.\<close>

definition is_timestamp :: "string \<Rightarrow> bool" where
  "is_timestamp s \<longleftrightarrow> length s = 16 \<and> list_all is_decimal (take 8 s) \<and> s ! 8 = CHR ''T''
     \<and> list_all is_decimal (take 6 (drop 9 s)) \<and> s ! 15 = CHR ''Z''"

text \<open>\<^verbatim>\<open>$\<close> also matches before a final newline, which \<^verbatim>\<open>.\<close> never matches.\<close>

definition before_end :: "string \<Rightarrow> string" where
  "before_end s = (if s \<noteq> [] \<and> last s = LF then butlast s else s)"

definition run_name_match :: "string \<Rightarrow> (string \<times> string) option" where
  "run_name_match name =
     (let rest = before_end (drop 17 name) in
      if is_timestamp (take 16 name) \<and> 16 < length name \<and> name ! 16 = CHR ''_''
         \<and> rest \<noteq> [] \<and> LF \<notin> set rest
      then Some (take 16 name, rest) else None)"

fun match_backend :: "string \<Rightarrow> string \<Rightarrow> string list \<Rightarrow> (string, string) dict option" where
  "match_backend ts rest [] = None"
| "match_backend ts rest (b # bs) =
     (if rest = b then Some [(''timestamp'', ts), (''backend'', b)]
      else if prefix (b @ ''_'') rest \<or> prefix (b @ ''-'') rest
        then Some [(''timestamp'', ts), (''backend'', b), (''label'', drop (length b + 1) rest)]
      else match_backend ts rest bs)"

definition split_run_name :: "string \<Rightarrow> (string, string) dict" where
  "split_run_name name = (case run_name_match name of
     None \<Rightarrow> []
   | Some (ts, rest) \<Rightarrow> (case match_backend ts rest KNOWN_BACKENDS of
       Some d \<Rightarrow> d
     | None \<Rightarrow> [(''timestamp'', ts), (''label'', rest)]))"

definition infer_rccl_sync_mode :: "string \<Rightarrow> string" where
  "infer_rccl_sync_mode label =
     (if sublist ''stream-ordered'' (lower label) then ''stream-ordered''
      else if sublist ''conservative'' (lower label) then ''conservative'' else [])"

text \<open>\<^verbatim>\<open>(\d+)[-_]?UNITs?\b\<close>, ignoring case: at one position, and searched for from the
  left.  The digits are taken greedily; giving some back cannot help, as none of the
  following atoms matches a digit.\<close>

definition word_boundary :: "string \<Rightarrow> bool" where
  "word_boundary s \<longleftrightarrow> s = [] \<or> \<not> is_word (hd s)"

definition count_at :: "string \<Rightarrow> string \<Rightarrow> string option" where
  "count_at unit s =
     (let digits = takeWhile is_decimal s; r = dropWhile is_decimal s;
          body = (if r \<noteq> [] \<and> (hd r = CHR ''-'' \<or> hd r = CHR ''_'') then tl r else r);
          after = drop (length unit) body
      in if digits \<noteq> [] \<and> lower (take (length unit) body) = unit
            \<and> (after \<noteq> [] \<and> lower_char (hd after) = CHR ''s'' \<and> word_boundary (tl after)
               \<or> word_boundary after)
         then Some digits else None)"

fun parse_count_from_label :: "string \<Rightarrow> string \<Rightarrow> string option" where
  "parse_count_from_label [] unit = None"
| "parse_count_from_label (c # cs) unit = (case count_at unit (c # cs) of
     Some d \<Rightarrow> Some d
   | None \<Rightarrow> parse_count_from_label cs unit)"

text \<open>\<^verbatim>\<open>^(?:rocm-)?\d+(?:\.\d+)+(?:[-._A-Za-z0-9]*)?$\<close>.\<close>

definition slug_char :: "char \<Rightarrow> bool" where
  "slug_char c \<longleftrightarrow> is_ascii_alnum c \<or> c = CHR ''.'' \<or> c = CHR ''_'' \<or> c = CHR ''-''"

definition is_version :: "string \<Rightarrow> bool" where
  "is_version s =
     (let t = before_end (removeprefix ''rocm-'' s); r = dropWhile is_decimal t
      in takeWhile is_decimal t \<noteq> [] \<and> length r > 1 \<and> hd r = CHR ''.'' \<and> is_decimal (hd (tl r))
         \<and> list_all slug_char r)"

definition relative_parts :: "path \<Rightarrow> string list" where
  "relative_parts path = (case index_of ''results'' path of
     Some index \<Rightarrow> drop (index + 2) path
   | None \<Rightarrow> [path_name path])"

definition path_system_entry :: "path \<Rightarrow> (string, string) dict" where
  "path_system_entry path = (case index_of ''results'' path of
     Some index \<Rightarrow> if index + 1 < length path then [(''system'', path ! (index + 1))] else []
   | None \<Rightarrow> [])"

definition set_if :: "string \<Rightarrow> string \<Rightarrow> (string, string) dict \<Rightarrow> (string, string) dict" where
  "set_if key v d = (if v \<noteq> [] then AList.update key v d else d)"

definition infer_path_metadata :: "path \<Rightarrow> (string, string) dict" where
  "infer_path_metadata path =
     (let metadata = path_system_entry path;
          relative = relative_parts path;
          versioned = (3 \<le> length relative \<and> is_version (relative ! 0));
          metadata = (if versioned
            then AList.update ''suite'' (relative ! 1) (AList.update ''rocm_version'' (relative ! 0) metadata)
            else metadata);
          run_name = (if versioned then relative ! 2
                      else if relative \<noteq> [] then relative ! 0 else path_name path);
          run_metadata = split_run_name run_name;
          metadata = foldl (\<lambda>d (k, v). AList.update k v d) metadata run_metadata;
          label = dict_get run_metadata ''label'' [];
          backend = dict_get run_metadata ''backend'' [];
          metadata = set_if ''backend'' backend metadata;
          metadata = (if backend = ''rccl'' then set_if ''rccl_sync_mode'' (infer_rccl_sync_mode label) metadata
                      else metadata);
          metadata = set_if ''nodes'' (or_str (parse_count_from_label label ''node'') []) metadata
      in set_if ''ranks'' (or_str (parse_count_from_label label ''rank'') []) metadata)"

section \<open>Display names and sort keys\<close>

definition display_system :: "string \<Rightarrow> string" where
  "display_system system =
     (if system = [] then []
      else dict_get [(''frontier'', ''Frontier''), (''borg'', ''Borg'')] (lower system) system)"

definition display_backend :: "string \<Rightarrow> string" where
  "display_backend b = (if sublist ''hip'' (lower b) then ''MPI-HIP''
     else if sublist ''mpi'' (lower b) then ''MPI'' else b)"

definition plural :: "int \<Rightarrow> string \<Rightarrow> string" where
  "plural n unit = string_of_int n @ '' '' @ unit @ (if n = 1 then [] else ''s'')"

definition backend_sort_key :: "string \<Rightarrow> int \<times> string" where
  "backend_sort_key b =
     (let lowered = lower b in
      if sublist ''mpi'' lowered \<and> sublist ''hip'' lowered then (0, lowered)
      else if sublist ''rccl'' lowered then (1, lowered)
      else if sublist ''mpi'' lowered then (2, lowered) else (9, lowered))"

definition rccl_sync_sort_key :: "string \<Rightarrow> int \<times> string" where
  "rccl_sync_sort_key mode =
     (let lowered = lower mode in
      if lowered = [] then (0, []) else if lowered = ''conservative'' then (1, lowered)
      else if lowered = ''stream-ordered'' then (2, lowered) else (3, lowered))"

definition optional_count_sort_key :: "int option \<Rightarrow> int \<times> int" where
  "optional_count_sort_key v = (case v of None \<Rightarrow> (1, 0) | Some n \<Rightarrow> (0, n))"

section \<open>Run names\<close>

definition run_name :: "string \<Rightarrow> string \<Rightarrow> char \<Rightarrow> string \<Rightarrow> string" where
  "run_name ts backend sep label = ts @ ''_'' @ backend @ sep # label"

lemma run_name_match_named:
  assumes "is_timestamp ts" "rest \<noteq> []" "LF \<notin> set rest"
  shows "run_name_match (ts @ ''_'' @ rest) = Some (ts, rest)"
proof -
  have l: "length ts = 16" using assms(1) by (simp add: is_timestamp_def)
  have "before_end rest = rest" using assms(2,3) last_in_set[of rest] by (metis before_end_def)
  then show ?thesis using assms l by (simp add: run_name_match_def Let_def nth_append)
qed

lemma split_run_name_named:
  assumes "is_timestamp ts" "backend \<in> set KNOWN_BACKENDS" "sep = CHR ''_'' \<or> sep = CHR ''-''" "LF \<notin> set label"
    "backend = ''mpi'' \<and> sep = CHR ''-'' \<longrightarrow> label \<noteq> ''hip'' \<and> \<not> prefix ''hip_'' label \<and> \<not> prefix ''hip-'' label"
  shows "split_run_name (run_name ts backend sep label)
    = [(''timestamp'', ts), (''backend'', backend), (''label'', label)]"
proof -
  have lf: "LF \<notin> set (backend @ sep # label)" using assms(2-4) by (auto simp: KNOWN_BACKENDS_def)
  have "run_name_match (run_name ts backend sep label) = Some (ts, backend @ sep # label)"
    unfolding run_name_def using run_name_match_named[OF assms(1) _ lf] by simp
  then have s: "split_run_name (run_name ts backend sep label)
      = (case match_backend ts (backend @ sep # label) KNOWN_BACKENDS of Some d \<Rightarrow> d
         | None \<Rightarrow> [(''timestamp'', ts), (''label'', backend @ sep # label)])"
    by (simp add: split_run_name_def)
  consider "backend = ''mpi-hip''" | "backend = ''rccl''" | "backend = ''mpi''"
    using assms(2) by (auto simp: KNOWN_BACKENDS_def)
  then show ?thesis unfolding s
    by cases (use assms(3,5) in \<open>elim disjE; simp add: KNOWN_BACKENDS_def\<close>)+
qed

text \<open>C34: a directory named by time stamp, backend and label is read back as these three; the
  one ambiguity is a label of plain MPI that begins like the backend \<^verbatim>\<open>mpi-hip\<close>.\<close>

theorem split_run_name_reads_back:
  assumes "is_timestamp ts" "backend \<in> set KNOWN_BACKENDS" "sep = CHR ''_'' \<or> sep = CHR ''-''" "LF \<notin> set label"
    "backend = ''mpi'' \<and> sep = CHR ''-'' \<longrightarrow> label \<noteq> ''hip'' \<and> \<not> prefix ''hip_'' label \<and> \<not> prefix ''hip-'' label"
  shows "split_run_name (run_name ts backend sep label)
    = [(''timestamp'', ts), (''backend'', backend), (''label'', label)]"
  using assms by (rule split_run_name_named)

theorem split_run_name_reads_back_witness:
  "split_run_name (run_name ''20240102T030405Z'' ''mpi'' (CHR ''_'') ''hip-4nodes'')
   = [(''timestamp'', ''20240102T030405Z''), (''backend'', ''mpi''), (''label'', ''hip-4nodes'')]"
  by (rule split_run_name_reads_back) (simp_all add: KNOWN_BACKENDS_def is_timestamp_def is_decimal_def code_def)

section \<open>Metadata files\<close>

definition plain_line :: "string \<times> string \<Rightarrow> bool" where
  "plain_line kv \<longleftrightarrow> bare is_space (fst kv) \<and> bare is_space (snd kv) \<and> CHR ''='' \<notin> set (fst kv)
     \<and> list_all (\<lambda>c. \<not> is_linebreak c) (fst kv @ snd kv)"

definition metadata_text :: "(string \<times> string) list \<Rightarrow> string" where
  "metadata_text kvs = unlines (map (\<lambda>(k, v). k @ CHR ''='' # v) kvs)"

lemma lines_from_plain:
  "list_all (\<lambda>c. \<not> is_linebreak c) s \<Longrightarrow> lines_from cur (s @ LF # t) = (rev cur @ s) # lines_from [] t"
proof (induction s arbitrary: cur)
  case (Cons c s)
  have "c \<noteq> CR" using Cons.prems by (auto simp: is_linebreak_def code_def)
  then show ?case using Cons by simp
qed (simp add: is_linebreak_def code_def)

lemma splitlines_unlines:
  "ls \<noteq> [] \<Longrightarrow> (\<And>l. l \<in> set ls \<Longrightarrow> list_all (\<lambda>c. \<not> is_linebreak c) l) \<Longrightarrow> splitlines (unlines ls) = ls"
  unfolding splitlines_def unlines_def
proof (induction ls rule: induct_list012)
  case (2 l)
  then show ?case using lines_from_plain[of l "[]" "[]"] by simp
next
  case (3 l m ls)
  have "lines_from [] ((l @ LF # join [LF] (m # ls)) @ [LF]) = l # lines_from [] (join [LF] (m # ls) @ [LF])"
    using lines_from_plain[of l "[]" "join [LF] (m # ls) @ [LF]"] 3(4)[of l] by simp
  also have "lines_from [] (join [LF] (m # ls) @ [LF]) = m # ls" by (rule 3(2)) (use 3(4) in auto)
  finally show ?case by simp
qed simp

lemma add_plain_line:
  "plain_line (k, v) \<Longrightarrow> add_metadata_line d (k @ CHR ''='' # v) = AList.update k v d"
  using split_once_Some_iff[of "CHR ''=''" "k @ CHR ''='' # v" k v]
  by (simp add: add_metadata_line_def plain_line_def strip_id)

lemma update_fresh: "k \<notin> fst ` set d \<Longrightarrow> AList.update k v d = d @ [(k, v)]"
  by (induction d) auto

lemma foldl_update_fresh:
  "distinct (map fst (d @ kvs)) \<Longrightarrow> foldl (\<lambda>d (k, v). AList.update k v d) d kvs = d @ kvs"
proof (induction kvs arbitrary: d)
  case (Cons kv kvs)
  obtain k v where kv: "kv = (k, v)" by fastforce
  have "AList.update k v d = d @ [(k, v)]" using Cons.prems by (intro update_fresh) (auto simp: kv rev_image_eqI)
  then show ?case using Cons by (simp add: kv)
qed simp

text \<open>C35: a metadata file written as \<^verbatim>\<open>key=value\<close> lines is read back as the same entries.\<close>

theorem metadata_text_reads_back:
  assumes "kvs \<noteq> []" "\<forall>kv \<in> set kvs. plain_line kv" "distinct (map fst kvs)"
  shows "parse_metadata_text (metadata_text kvs) = kvs"
proof -
  have "splitlines (metadata_text kvs) = map (\<lambda>(k, v). k @ CHR ''='' # v) kvs"
    unfolding metadata_text_def
    by (rule splitlines_unlines) (use assms(1,2) in \<open>auto simp: plain_line_def is_linebreak_def code_def\<close>)
  moreover have "foldl add_metadata_line d (map (\<lambda>(k, v). k @ CHR ''='' # v) kvs) = foldl (\<lambda>d (k, v). AList.update k v d) d kvs" for d
    using assms(2) by (induction kvs arbitrary: d) (auto simp: add_plain_line)
  ultimately show ?thesis using foldl_update_fresh[of "[]" kvs] assms(3) by (simp add: parse_metadata_text_def)
qed

theorem metadata_text_reads_back_witness:
  "parse_metadata_text (metadata_text [(''nodes'', ''2''), (''note'', ''a = b'')]) = [(''nodes'', ''2''), (''note'', ''a = b'')]"
  by (rule metadata_text_reads_back)
    (simp_all add: plain_line_def bare_def is_space_def is_linebreak_def code_def)

section \<open>Names that are safe in paths\<close>

locale file_namer =
  fixes name_of :: "string \<Rightarrow> string" and ok :: "char \<Rightarrow> bool" and trimmed :: "char \<Rightarrow> bool"
  assumes named: "name_of s \<noteq> [] \<and> list_all ok (name_of s) \<and> bare trimmed (name_of s)"
    and kept: "s \<noteq> [] \<Longrightarrow> list_all ok s \<Longrightarrow> bare trimmed s \<Longrightarrow> name_of s = s"
begin

lemma idempotent: "name_of (name_of s) = name_of s"
  using named[of s] by (auto intro: kept)

lemma fixed_iff: "name_of s = s \<longleftrightarrow> s \<noteq> [] \<and> list_all ok s \<and> bare trimmed s"
  using named[of s] kept[of s] by auto

lemma range_iff: "(\<exists>s. t = name_of s) \<longleftrightarrow> t \<noteq> [] \<and> list_all ok t \<and> bare trimmed t"
  using named kept[of t] by (metis)

end

lemma set_squeeze: "set (squeeze ok ch s) \<subseteq> insert ch (set s)"
  by (induction ok ch s rule: squeeze.induct) (auto dest: set_dropWhileD)

lemma slug_char_no_space: "slug_char c \<Longrightarrow> \<not> is_space c"
  by (auto simp: slug_char_def is_ascii_alnum_def is_space_def is_upper_ascii_def is_lower_ascii_def is_decimal_def code_def)

lemma slug_char_no_slash: "slug_char c \<Longrightarrow> c \<noteq> CHR ''/''"
  by (auto simp: slug_char_def is_ascii_alnum_def is_upper_ascii_def is_lower_ascii_def is_decimal_def code_def)

lemma strip_slug: "list_all slug_char s \<Longrightarrow> strip s = s"
  by (intro strip_id bare_all) (auto simp: list_all_iff slug_char_no_space)

end
