(* ===== verification/RunData.thy ===== *)
theory RunData
  imports PathMeta
begin

text \<open>
  \<^verbatim>\<open>tools/ghalo_analyze.py\<close>, the data model: \<^verbatim>\<open>RunResult\<close> and \<^verbatim>\<open>Run\<close>
  as records, and the properties of \<^verbatim>\<open>Run\<close> as functions.  A property that calls
  \<^verbatim>\<open>int\<close> on unchecked data returns a result that may be an exception.
\<close>

text \<open>The fields every result carries, and the phase-timing fields.\<close>

definition REQUIRED_FIELDS :: "string list" where
  "REQUIRED_FIELDS = [''backend'', ''algorithm'', ''halo_words'', ''total_exchange_bytes_per_rank'',
     ''iterations'', ''max_average_seconds'']"

definition PHASE_FIELDS :: "string list" where
  "PHASE_FIELDS = [''input_device_copy_seconds'', ''north_south_mpi_seconds'',
     ''north_south_communication_seconds'', ''north_south_sync_seconds'',
     ''transpose_device_copy_seconds'', ''transpose_copy_seconds'', ''transpose_copy_sync_seconds'',
     ''transpose_sync_seconds'', ''east_west_mpi_seconds'', ''east_west_communication_seconds'',
     ''east_west_sync_seconds'', ''north_south_communication_enqueue_seconds'',
     ''transpose_copy_enqueue_seconds'', ''east_west_communication_enqueue_seconds'',
     ''final_stream_sync_seconds'', ''phase_sum_seconds'', ''unattributed_seconds'',
     ''total_exchange_seconds'', ''total_minus_sum_of_phase_maxima_seconds'']"

record run_result =
  halo_words :: int
  res_backend :: string
  res_algorithm :: string
  iterations :: int
  max_average_seconds :: pyfloat
  max_total_seconds :: pyfloat
  total_exchange_bytes_per_rank :: int
  word_bytes :: "int option"
  n_message_bytes :: "int option"
  two_n_message_bytes :: "int option"
  topology :: "(string \<times> json) list"
  metadata :: "(string \<times> json) list"
  phase_timing :: "(string \<times> pyfloat) list option"

record run =
  input_path :: path
  result_path :: path
  version :: string
  results :: "run_result list"
  metadata_files :: "(string \<times> string) list"
  warnings :: "string list"
  source_format :: string

section \<open>Properties of a run\<close>

definition path_metadata :: "run \<Rightarrow> (string, string) dict" where
  "path_metadata r = infer_path_metadata (result_path r)"

definition path_value :: "run \<Rightarrow> string \<Rightarrow> string" where
  "path_value r k = dict_get (path_metadata r) k []"

definition path_int :: "run \<Rightarrow> string \<Rightarrow> int option" where
  "path_int r k = parse_int (opt_str (map_of (path_metadata r) k))"

fun first_key :: "(string, string) dict \<Rightarrow> string list \<Rightarrow> string option" where
  "first_key values [] = None"
| "first_key values (k # ks) = (case map_of values k of Some v \<Rightarrow> Some v | None \<Rightarrow> first_key values ks)"

text \<open>\<^verbatim>\<open>Run.meta_value\<close>: the files in order, in each file the keys in order.\<close>

fun meta_in_files :: "run \<Rightarrow> string list \<Rightarrow> string list \<Rightarrow> string option" where
  "meta_in_files r ks [] = None"
| "meta_in_files r ks (filename # files) =
     (if filename = [] then meta_in_files r ks files
      else (let text = dict_get (metadata_files r) filename [] in
        case first_key (parse_metadata_text text) ks of
          Some v \<Rightarrow> Some v
        | None \<Rightarrow>
            (case (if filename = ''slurm-job.txt'' then first_key (parse_slurm_text text) ks else None) of
               Some v \<Rightarrow> Some v
             | None \<Rightarrow> meta_in_files r ks files)))"

definition meta_value :: "run \<Rightarrow> string list \<Rightarrow> string option \<Rightarrow> string option" where
  "meta_value r ks from_file =
     meta_in_files r ks (case from_file of
        Some f \<Rightarrow> if f = [] then map fst (metadata_files r) else [f]
      | None \<Rightarrow> map fst (metadata_files r))"

fun first_int_of :: "(string \<times> json) list \<Rightarrow> string list \<Rightarrow> int option" where
  "first_int_of md [] = None"
| "first_int_of md (k # ks) = (case parse_int (opt_json (map_of md k)) of
     Some n \<Rightarrow> Some n
   | None \<Rightarrow> first_int_of md ks)"

definition first_result_metadata_int :: "run \<Rightarrow> string list \<Rightarrow> int option" where
  "first_result_metadata_int r ks = (case results r of [] \<Rightarrow> None | x # _ \<Rightarrow> first_int_of (metadata x) ks)"

definition run_backend :: "run \<Rightarrow> string" where
  "run_backend r = (case results r of x # _ \<Rightarrow> res_backend x | [] \<Rightarrow> path_value r ''backend'')"

definition run_algorithm :: "run \<Rightarrow> string" where
  "run_algorithm r = (case results r of x # _ \<Rightarrow> res_algorithm x | [] \<Rightarrow> [])"

definition memory_location :: "run \<Rightarrow> string" where
  "memory_location r = (case results r of [] \<Rightarrow> []
     | x # _ \<Rightarrow> json_str (jget (metadata x) ''memory_location'' (JStr [])))"

definition result_or_meta :: "run \<Rightarrow> string \<Rightarrow> string" where
  "result_or_meta r k = (case results r of [] \<Rightarrow> path_value r k
     | x # _ \<Rightarrow> or_str (Some (json_str (jget (metadata x) k (JStr []))))
                  (or_str (meta_value r [k] None) (path_value r k)))"

definition rccl_sync_mode :: "run \<Rightarrow> string" where
  "rccl_sync_mode r = result_or_meta r ''rccl_sync_mode''"

definition rocm_version :: "run \<Rightarrow> string" where
  "rocm_version r = result_or_meta r ''rocm_version''"

definition suite :: "run \<Rightarrow> string" where
  "suite r = or_str (meta_value r [''suite''] None)
     (or_str (meta_value r [''result_category''] None) (path_value r ''suite''))"

definition timestamp :: "run \<Rightarrow> string" where
  "timestamp r = or_str (meta_value r [''timestamp''] None) (path_value r ''timestamp'')"

definition ranks :: "run \<Rightarrow> int option" where
  "ranks r = (case results r of [] \<Rightarrow> path_int r ''ranks''
     | x # _ \<Rightarrow> (case parse_int (opt_json (map_of (topology x) ''world_size'')) of
         Some n \<Rightarrow> Some n
       | None \<Rightarrow> path_int r ''ranks''))"

definition topology_int :: "run \<Rightarrow> string \<Rightarrow> int option res" where
  "topology_int r k = (case results r of [] \<Rightarrow> Inr None
     | x # _ \<Rightarrow> (let v = opt_json (map_of (topology x) k) in
         if none_or_empty v then Inr None else bindR (json_int v) (\<lambda>n. Inr (Some n))))"

definition rows :: "run \<Rightarrow> int option res" where
  "rows r = topology_int r ''rows''"

definition cols :: "run \<Rightarrow> int option res" where
  "cols r = topology_int r ''cols''"

text \<open>\<^verbatim>\<open>Run.cartesian\<close>: the second dimension is not read when the first is missing.\<close>

definition cartesian :: "run \<Rightarrow> string res" where
  "cartesian r = bindR (rows r) (\<lambda>rw. case rw of None \<Rightarrow> Inr []
     | Some n \<Rightarrow> bindR (cols r) (\<lambda>cl. case cl of None \<Rightarrow> Inr []
         | Some m \<Rightarrow> Inr (string_of_int n @ ''x'' @ string_of_int m)))"

definition system :: "run \<Rightarrow> string" where
  "system r = or_str (meta_value r [''active_system''] None)
     (or_str (Some (path_value r ''system'')) (infer_system_from_path (result_path r)))"

definition build_system :: "run \<Rightarrow> string" where
  "build_system r = or_str (meta_value r [''build_system''] None) []"

definition git_commit :: "run \<Rightarrow> string" where
  "git_commit r = or_str (meta_value r [''commit''] (Some ''git.txt''))
     (or_str (meta_value r [''git_commit''] None) [])"

definition slurm_job_id :: "run \<Rightarrow> string" where
  "slurm_job_id r = or_str (meta_value r [''slurm_job_id''] (Some ''submission.txt'')) []"

definition has_phase_timing :: "run_result \<Rightarrow> bool" where
  "has_phase_timing x \<longleftrightarrow> phase_timing x \<noteq> None \<and> phase_timing x \<noteq> Some []"

definition phase_timing_enabled :: "run \<Rightarrow> bool" where
  "phase_timing_enabled r \<longleftrightarrow> list_ex has_phase_timing (results r)"

section \<open>Node and rank counts\<close>

definition NODE_KEYS :: "string list" where
  "NODE_KEYS = [''nodes'', ''node_count'', ''num_nodes'', ''SLURM_JOB_NUM_NODES'', ''NodeCnt'', ''NumNodes'']"

fun nodes_in_files :: "run \<Rightarrow> string list \<Rightarrow> int option" where
  "nodes_in_files r [] = None"
| "nodes_in_files r (f # fs) = (case parse_int (opt_str (meta_value r NODE_KEYS (Some f))) of
     Some n \<Rightarrow> Some n
   | None \<Rightarrow> nodes_in_files r fs)"

definition NODE_FILES :: "string list" where
  "NODE_FILES = [''submission.txt'', ''slurm-job.txt'', ''environment.txt'']"

definition nodes_without_derivation :: "run \<Rightarrow> int option" where
  "nodes_without_derivation r =
     (case first_result_metadata_int r [''nodes'', ''node_count'', ''num_nodes'', ''slurm_job_num_nodes''] of
        Some n \<Rightarrow> Some n
      | None \<Rightarrow> nodes_in_files r NODE_FILES)"

text \<open>\<^verbatim>\<open>a and b and a % b == 0\<close> with \<^verbatim>\<open>a // b\<close> as the result; None where a count
  is missing or zero.\<close>

definition exact_quotient :: "int option \<Rightarrow> int option \<Rightarrow> int option" where
  "exact_quotient a b = (case (a, b) of
     (Some m, Some n) \<Rightarrow> if m \<noteq> 0 \<and> n \<noteq> 0 \<and> m mod n = 0 then Some (m div n) else None
   | _ \<Rightarrow> None)"

definition ranks_per_node :: "run \<Rightarrow> int option res" where
  "ranks_per_node r =
     (case first_result_metadata_int r [''ranks_per_node'', ''tasks_per_node'', ''gpus_per_node''] of
        Some n \<Rightarrow> Inr (Some n)
      | None \<Rightarrow>
     (case parse_int (opt_str (meta_value r [''requested_ranks_per_node''] (Some ''result-metadata.txt''))) of
        Some n \<Rightarrow> Inr (Some n)
      | None \<Rightarrow>
          bindR (parse_first_int (opt_str (meta_value r
              [''ranks_per_node'', ''tasks_per_node'', ''gpus_per_node'', ''SLURM_NTASKS_PER_NODE''] None)))
            (\<lambda>parsed. case parsed of Some n \<Rightarrow> Inr (Some n)
               | None \<Rightarrow> Inr (exact_quotient (ranks r) (nodes_without_derivation r)))))"

definition nodes :: "run \<Rightarrow> int option res" where
  "nodes r =
     (case parse_int (opt_str (meta_value r [''requested_nodes''] (Some ''result-metadata.txt''))) of
        Some n \<Rightarrow> Inr (Some n)
      | None \<Rightarrow>
     (case nodes_without_derivation r of
        Some n \<Rightarrow> Inr (Some n)
      | None \<Rightarrow>
     (case path_int r ''nodes'' of
        Some n \<Rightarrow> Inr (Some n)
      | None \<Rightarrow>
          (if ranks r = None \<or> ranks r = Some 0
           then bindR (ranks_per_node r) (\<lambda>_. Inr None)
           else bindR (ranks_per_node r) (\<lambda>rpn. Inr (exact_quotient (ranks r) rpn))))))"

section \<open>Labels\<close>

definition rank_kind :: "run \<Rightarrow> string" where
  "rank_kind r = (if memory_location r = ''device'' then ''GPU rank'' else ''rank'')"

definition count_part :: "int option \<Rightarrow> string \<Rightarrow> string list" where
  "count_part n unit = (case n of None \<Rightarrow> [] | Some k \<Rightarrow> [plural k unit])"

definition text_part :: "string \<Rightarrow> string list" where
  "text_part s = (if s = [] then [] else [s])"

definition truthy_count :: "int option \<Rightarrow> bool" where
  "truthy_count n \<longleftrightarrow> n \<noteq> None \<and> n \<noteq> Some 0"

definition label :: "run \<Rightarrow> string res" where
  "label r = bindR (nodes r) (\<lambda>nds.
     let sys = display_system (system r) in
     if sys \<noteq> [] \<or> truthy_count nds \<or> truthy_count (ranks r)
     then Inr (join '' | ''
       (text_part sys @ count_part nds ''node'' @ count_part (ranks r) (rank_kind r)
        @ text_part (rccl_sync_mode r) @ text_part (rocm_version r)
        @ (if sublist ''repeat'' (lower (path_name (result_path r))) then [''repeat''] else [])))
     else Inr (path_name (input_path r)))"

section \<open>Where a node count comes from\<close>

text \<open>The explicit sources of the two counts.\<close>

definition given_nodes :: "run \<Rightarrow> int option" where
  "given_nodes r = (case parse_int (opt_str (meta_value r [''requested_nodes''] (Some ''result-metadata.txt''))) of
     Some n \<Rightarrow> Some n
   | None \<Rightarrow> (case nodes_without_derivation r of Some n \<Rightarrow> Some n | None \<Rightarrow> path_int r ''nodes''))"

definition given_ranks_per_node :: "run \<Rightarrow> int option res" where
  "given_ranks_per_node r =
     (case first_result_metadata_int r [''ranks_per_node'', ''tasks_per_node'', ''gpus_per_node''] of
        Some n \<Rightarrow> Inr (Some n)
      | None \<Rightarrow> (case parse_int (opt_str (meta_value r [''requested_ranks_per_node''] (Some ''result-metadata.txt''))) of
          Some n \<Rightarrow> Inr (Some n)
        | None \<Rightarrow> parse_first_int (opt_str (meta_value r
            [''ranks_per_node'', ''tasks_per_node'', ''gpus_per_node'', ''SLURM_NTASKS_PER_NODE''] None))))"

lemma exact_quotient_iff:
  "exact_quotient a b = Some n \<longleftrightarrow> (\<exists>k p. a = Some k \<and> b = Some p \<and> k \<noteq> 0 \<and> p \<noteq> 0 \<and> n * p = k)"
  by (auto simp: exact_quotient_def split: option.splits if_splits)

lemma exact_quotient_None [simp]: "exact_quotient a None = None" "exact_quotient None b = None"
  by (auto simp: exact_quotient_def split: option.splits)

lemma ranks_per_node_given:
  "ranks_per_node r = bindR (given_ranks_per_node r) (\<lambda>g. Inr (case g of Some n \<Rightarrow> Some n
     | None \<Rightarrow> exact_quotient (ranks r) (nodes_without_derivation r)))"
  by (auto simp: ranks_per_node_def given_ranks_per_node_def split: option.splits intro!: bindR_cong)

lemma nodes_given:
  "nodes r = (case given_nodes r of Some n \<Rightarrow> Inr (Some n)
     | None \<Rightarrow> bindR (given_ranks_per_node r) (\<lambda>p. Inr (exact_quotient (ranks r) p)))"
proof (cases "given_nodes r")
  case None
  then have n: "parse_int (opt_str (meta_value r [''requested_nodes''] (Some ''result-metadata.txt''))) = None"
      "nodes_without_derivation r = None" "path_int r ''nodes'' = None"
    by (auto simp: given_nodes_def split: option.splits)
  have "ranks_per_node r = given_ranks_per_node r"
    by (cases "given_ranks_per_node r") (auto simp: ranks_per_node_given n(2) split: option.splits)
  moreover have "exact_quotient (ranks r) p = None" if "ranks r = None \<or> ranks r = Some 0" for p
    using that by (auto simp: exact_quotient_def split: option.splits)
  ultimately show ?thesis using None by (auto simp: nodes_def n intro!: bindR_cong)
qed (auto simp: nodes_def given_nodes_def split: option.splits)

text \<open>C6: a node count is what a source states, or the rank count divided without remainder by
  a stated number of ranks per node; a rank count alone never yields one.\<close>

theorem node_count_provenance:
  "nodes r = Inr (Some n) \<longleftrightarrow> given_nodes r = Some n
     \<or> given_nodes r = None \<and> (\<exists>p k. given_ranks_per_node r = Inr (Some p) \<and> ranks r = Some k
          \<and> k \<noteq> 0 \<and> p \<noteq> 0 \<and> n * p = k)"
  by (auto simp: nodes_given bindR_eq_Inr_iff exact_quotient_iff split: option.splits)

end
