(* ===== verification/PyCsv.thy ===== *)
theory PyCsv
  imports PyText PyDict
begin

text \<open>
  The \<^verbatim>\<open>csv\<close> module as the tools use it: the reader's state machine with the default
  dialect, \<^verbatim>\<open>DictReader\<close> rows, and the writer with minimal quoting.  The last lemma
  is the round trip: reading what the writer wrote returns the rows.
\<close>

abbreviation (input) QT :: char where "QT \<equiv> CHR 0x22"

section \<open>The reader\<close>

datatype cstate = StartRecord | StartField | InField | InQuoted | QuoteInQuoted | AfterCR

text \<open>One step: the row it completes, if any, then the next state, the field in progress
  (reversed) and the finished fields of the row (reversed).\<close>

type_synonym cstep = "string list option \<times> cstate \<times> string \<times> string list"

definition end_row :: "char \<Rightarrow> string list \<Rightarrow> cstep" where
  "end_row c row = (Some row, if c = CR then AfterCR else StartRecord, [], [])"

definition start_field_step :: "char \<Rightarrow> string list \<Rightarrow> cstep" where
  "start_field_step c fs =
     (if c = LF \<or> c = CR then end_row c (rev ([] # fs))
      else if c = QT then (None, InQuoted, [], fs)
      else if c = CHR '','' then (None, StartField, [], [] # fs)
      else (None, InField, [c], fs))"

definition start_record_step :: "char \<Rightarrow> cstep" where
  "start_record_step c = (if c = LF \<or> c = CR then end_row c [] else start_field_step c [])"

definition csv_step :: "cstate \<Rightarrow> string \<Rightarrow> string list \<Rightarrow> char \<Rightarrow> cstep" where
  "csv_step st cur fs c = (case st of
     StartRecord \<Rightarrow> start_record_step c
   | AfterCR \<Rightarrow> if c = LF then (None, StartRecord, [], []) else start_record_step c
   | StartField \<Rightarrow> start_field_step c fs
   | InField \<Rightarrow>
       if c = LF \<or> c = CR then end_row c (rev (rev cur # fs))
       else if c = CHR '','' then (None, StartField, [], rev cur # fs)
       else (None, InField, c # cur, fs)
   | InQuoted \<Rightarrow> if c = QT then (None, QuoteInQuoted, cur, fs) else (None, InQuoted, c # cur, fs)
   | QuoteInQuoted \<Rightarrow>
       if c = QT then (None, InQuoted, QT # cur, fs)
       else if c = CHR '','' then (None, StartField, [], rev cur # fs)
       else if c = LF \<or> c = CR then end_row c (rev (rev cur # fs))
       else (None, InField, c # cur, fs))"

text \<open>At the end of the text a record in progress is completed.\<close>

definition csv_finish :: "cstate \<Rightarrow> string \<Rightarrow> string list \<Rightarrow> string list list" where
  "csv_finish st cur fs =
     (if st = StartRecord \<or> st = AfterCR then [] else [rev (rev cur # fs)])"

fun csv_run :: "cstate \<Rightarrow> string \<Rightarrow> string list \<Rightarrow> string \<Rightarrow> string list list" where
  "csv_run st cur fs [] = csv_finish st cur fs"
| "csv_run st cur fs (c # cs) =
     (case csv_step st cur fs c of
        (None, st', cur', fs') \<Rightarrow> csv_run st' cur' fs' cs
      | (Some row, st', cur', fs') \<Rightarrow> row # csv_run st' cur' fs' cs)"

definition csv_rows :: "string \<Rightarrow> string list list" where
  "csv_rows s = csv_run StartRecord [] [] s"

section \<open>DictReader\<close>

text \<open>A row maps column names to cells; a column the row is too short for is None.  Cells
  beyond the header are kept under a key no lookup uses, and blank lines are skipped.\<close>

type_synonym csv_row = "(string \<times> string option) list"

definition dict_row :: "string list \<Rightarrow> string list \<Rightarrow> csv_row" where
  "dict_row header cells =
     foldl (\<lambda>d (k, v). AList.update k v d) []
       (zip header (map Some cells @ replicate (length header - length cells) None))"

definition csv_fieldnames :: "string \<Rightarrow> string list option" where
  "csv_fieldnames s = (case csv_rows s of [] \<Rightarrow> None | h # _ \<Rightarrow> Some h)"

definition csv_dict_rows :: "string \<Rightarrow> csv_row list" where
  "csv_dict_rows s = (case csv_rows s of [] \<Rightarrow> []
     | h # rows \<Rightarrow> map (dict_row h) (filter (\<lambda>r. r \<noteq> []) rows))"

text \<open>\<^verbatim>\<open>row.get(k)\<close>, \<^verbatim>\<open>row.get(k, "")\<close>.\<close>

definition row_get :: "csv_row \<Rightarrow> string \<Rightarrow> string option" where
  "row_get row k = (case map_of row k of None \<Rightarrow> None | Some v \<Rightarrow> v)"

definition row_get_default :: "csv_row \<Rightarrow> string \<Rightarrow> string \<Rightarrow> string option" where
  "row_get_default row k def = (case map_of row k of None \<Rightarrow> Some def | Some v \<Rightarrow> v)"

section \<open>The writer\<close>

definition needs_quotes :: "string \<Rightarrow> bool" where
  "needs_quotes f \<longleftrightarrow> CHR '','' \<in> set f \<or> QT \<in> set f \<or> LF \<in> set f \<or> CR \<in> set f"

definition double_quotes :: "string \<Rightarrow> string" where
  "double_quotes f = concat (map (\<lambda>c. if c = QT then [QT, QT] else [c]) f)"

definition quoted :: "string \<Rightarrow> string" where
  "quoted f = QT # double_quotes f @ [QT]"

definition csv_field :: "string \<Rightarrow> string" where
  "csv_field f = (if needs_quotes f then quoted f else f)"

definition csv_line :: "string list \<Rightarrow> string" where
  "csv_line row = (if row = [[]] then quoted [] else join '','' (map csv_field row)) @ [CR, LF]"

definition csv_write :: "string list list \<Rightarrow> string" where
  "csv_write rows = concat (map csv_line rows)"

section \<open>Round trip\<close>

lemma run_quoted:
  "csv_run InQuoted cur fs (double_quotes f @ QT # t) = csv_run QuoteInQuoted (rev f @ cur) fs t"
  by (induction f arbitrary: cur) (simp_all add: double_quotes_def csv_step_def)

lemma needs_quotes_Nil [simp]: "\<not> needs_quotes []"
  by (simp add: needs_quotes_def)

lemma needs_quotes_Cons [simp]:
  "needs_quotes (c # cs) \<longleftrightarrow> c = CHR '','' \<or> c = QT \<or> c = LF \<or> c = CR \<or> needs_quotes cs"
  by (auto simp: needs_quotes_def)

lemma run_plain:
  "\<not> needs_quotes f \<Longrightarrow> csv_run InField cur fs (f @ t) = csv_run InField (rev f @ cur) fs t"
  by (induction f arbitrary: cur) (simp_all add: csv_step_def)

text \<open>A written field, followed by a comma or by the end of the line.\<close>

lemma run_field_comma:
  "csv_run StartField [] fs (csv_field f @ CHR '','' # t) = csv_run StartField [] (f # fs) t"
proof (cases "needs_quotes f")
  case True
  then show ?thesis
    using run_quoted[of "[]" fs f "CHR '','' # t"]
    by (simp add: csv_field_def quoted_def csv_step_def start_field_step_def)
next
  case False
  then show ?thesis
  proof (cases f)
    case (Cons c cs)
    then have "\<not> needs_quotes cs" using False by simp
    then show ?thesis using False Cons run_plain[of cs "[c]" fs "CHR '','' # t"]
      by (simp add: csv_field_def csv_step_def start_field_step_def)
  qed (simp add: csv_field_def csv_step_def start_field_step_def)
qed

lemma run_field_end:
  "csv_run StartField [] fs (csv_field f @ CR # LF # t) = rev (f # fs) # csv_run StartRecord [] [] t"
proof (cases "needs_quotes f")
  case True
  then show ?thesis
    using run_quoted[of "[]" fs f "CR # LF # t"]
    by (simp add: csv_field_def quoted_def csv_step_def start_field_step_def end_row_def)
next
  case False
  then show ?thesis
  proof (cases f)
    case (Cons c cs)
    then have "\<not> needs_quotes cs" using False by simp
    then show ?thesis using False Cons run_plain[of cs "[c]" fs "CR # LF # t"]
      by (simp add: csv_field_def csv_step_def start_field_step_def end_row_def)
  qed (simp add: csv_field_def csv_step_def start_field_step_def end_row_def)
qed

lemma run_fields:
  "row \<noteq> [] \<Longrightarrow> csv_run StartField [] fs (join '','' (map csv_field row) @ CR # LF # t)
     = (rev fs @ row) # csv_run StartRecord [] [] t"
proof (induction row arbitrary: fs)
  case (Cons f row)
  then show ?case
    by (cases row) (simp_all add: run_field_end run_field_comma)
qed simp

text \<open>A record that does not begin with a line end starts like a field.\<close>

lemma start_record_eq_field:
  "s \<noteq> [] \<Longrightarrow> hd s \<noteq> CR \<Longrightarrow> hd s \<noteq> LF \<Longrightarrow> csv_run StartRecord [] [] s = csv_run StartField [] [] s"
  by (cases s) (simp_all add: csv_step_def start_record_step_def)

lemma hd_csv_field: "csv_field f \<noteq> [] \<Longrightarrow> hd (csv_field f) \<noteq> CR \<and> hd (csv_field f) \<noteq> LF"
  by (cases f) (auto simp: csv_field_def quoted_def)

lemma csv_run_line: "csv_run StartRecord [] [] (csv_line row @ t) = row # csv_run StartRecord [] [] t"
proof (cases "row = [] \<or> row = [[]]")
  case True
  then show ?thesis
    by (auto simp: csv_line_def quoted_def double_quotes_def csv_step_def start_record_step_def
        start_field_step_def end_row_def)
next
  case False
  then obtain f rest where row: "row = f # rest" by (cases row) auto
  let ?s = "join '','' (map csv_field row)"
  have hd: "?s \<noteq> [] \<and> hd ?s \<noteq> CR \<and> hd ?s \<noteq> LF"
  proof (cases "csv_field f = []")
    case True
    then have "f = []" by (cases f) (auto simp: csv_field_def quoted_def split: if_splits)
    then have "rest \<noteq> []" using False row by simp
    then show ?thesis using True by (cases rest) (auto simp: row)
  next
    case ne: False
    then show ?thesis using hd_csv_field[OF ne] by (cases rest) (auto simp: row)
  qed
  have "csv_run StartRecord [] [] (?s @ CR # LF # t) = csv_run StartField [] [] (?s @ CR # LF # t)"
    by (rule start_record_eq_field) (use hd in auto)
  then show ?thesis using run_fields[of row "[]" t] False by (simp add: csv_line_def)
qed

lemma csv_write_read: "csv_rows (csv_write rows) = rows"
  unfolding csv_rows_def csv_write_def
  by (induction rows) (simp_all add: csv_run_line csv_finish_def)

end
