(* ===== verification/Loading.thy ===== *)
theory Loading
  imports RunData PyCsv PyPath
begin

text \<open>
  \<^verbatim>\<open>tools/ghalo_analyze.py\<close>, loading: a result directory, its JSON or CSV file and
  its metadata files become a \<^verbatim>\<open>Run\<close>, which is validated before anything uses
  it.  The text of a decoding error, which the library supplies, is left out of the message
  that quotes it.
\<close>

section \<open>One result\<close>

definition analysis_error :: "path \<Rightarrow> string \<Rightarrow> exn" where
  "analysis_error source msg = AnalysisError (str_path source @ '': '' @ msg)"

definition optional_int :: "json \<Rightarrow> int option res" where
  "optional_int value = (if none_or_empty value then Inr None
     else bindR (json_int value) (\<lambda>n. Inr (Some n)))"

text \<open>\<^verbatim>\<open>value[1:-1]\<close> with the escaped quotes and then the escaped backslashes undone;
  a cell that is missing from a short row has no length.\<close>

fun replace_pair :: "char \<Rightarrow> char \<Rightarrow> char \<Rightarrow> string \<Rightarrow> string" where
  "replace_pair a b r (c # d # cs) =
     (if c = a \<and> d = b then r # replace_pair a b r cs else c # replace_pair a b r (d # cs))"
| "replace_pair a b r cs = cs"

definition unquote_csv_string :: "string option \<Rightarrow> string res" where
  "unquote_csv_string value = (case value of None \<Rightarrow> Inl TypeError
     | Some s \<Rightarrow> Inr (if 2 \<le> length s \<and> hd s = CHR 0x22 \<and> last s = CHR 0x22
         then replace_pair (CHR 0x5C) (CHR 0x5C) (CHR 0x5C)
                (replace_pair (CHR 0x5C) (CHR 0x22) (CHR 0x22) (butlast (tl s)))
         else s))"

definition missing_field :: "(string \<Rightarrow> bool) \<Rightarrow> path \<Rightarrow> unit res" where
  "missing_field has source = (case find (\<lambda>f. \<not> has f) REQUIRED_FIELDS of
     None \<Rightarrow> Inr ()
   | Some f \<Rightarrow> Inl (analysis_error source (''missing required result field '' @ f)))"

text \<open>\<^verbatim>\<open>item[k]\<close> for a key whose presence was checked.\<close>

definition item_get :: "(string \<times> json) list \<Rightarrow> string \<Rightarrow> json" where
  "item_get item k = opt_json (map_of item k)"

definition phase_from_json :: "json \<Rightarrow> (string \<times> pyfloat) list option res" where
  "phase_from_json phase = (case phase of
     JObj d \<Rightarrow> bindR (traverse (\<lambda>name. bindR (json_float (jget d name (JFloat (Fin 0))))
                  (\<lambda>x. Inr (name, x))) PHASE_FIELDS) (\<lambda>ps. Inr (Some ps))
   | _ \<Rightarrow> Inr None)"

definition result_from_json :: "path \<Rightarrow> json \<Rightarrow> run_result res" where
  "result_from_json source value = (case value of
     JObj item \<Rightarrow>
       bindR (missing_field (\<lambda>f. map_of item f \<noteq> None) source) (\<lambda>_.
       bindR (json_int (item_get item ''halo_words'')) (\<lambda>hw.
       bindR (json_int (item_get item ''iterations'')) (\<lambda>its.
       bindR (json_float (item_get item ''max_average_seconds'')) (\<lambda>avg.
       bindR (json_float (jget item ''max_total_seconds'' (JFloat (Fin 0)))) (\<lambda>tot.
       bindR (json_int (item_get item ''total_exchange_bytes_per_rank'')) (\<lambda>bytes.
       bindR (optional_int (item_get item ''word_bytes'')) (\<lambda>wb.
       bindR (optional_int (item_get item ''n_message_bytes'')) (\<lambda>nb.
       bindR (optional_int (item_get item ''two_n_message_bytes'')) (\<lambda>tnb.
       bindR (json_dict (jget item ''topology'' (JObj []))) (\<lambda>top.
       bindR (json_dict (jget item ''metadata'' (JObj []))) (\<lambda>md.
       bindR (phase_from_json (item_get item ''phase_timing'')) (\<lambda>ph.
       Inr \<lparr>halo_words = hw, res_backend = json_str (item_get item ''backend''),
            res_algorithm = json_str (item_get item ''algorithm''), iterations = its,
            max_average_seconds = avg, max_total_seconds = tot,
            total_exchange_bytes_per_rank = bytes, word_bytes = wb, n_message_bytes = nb,
            two_n_message_bytes = tnb, topology = top, metadata = md, phase_timing = ph\<rparr>))))))))))))
   | _ \<Rightarrow> Inl (analysis_error source ''result entry is not an object''))"

definition int_entry :: "int option \<Rightarrow> json" where
  "int_entry v = (case v of None \<Rightarrow> JNull | Some n \<Rightarrow> JInt n)"

definition csv_int :: "csv_row \<Rightarrow> string \<Rightarrow> int option res" where
  "csv_int row k = optional_int (opt_str (row_get row k))"

text \<open>The columns of the topology, with the keys they are stored under.\<close>

definition TOPOLOGY_COLUMNS :: "(string \<times> string) list" where
  "TOPOLOGY_COLUMNS = [(''world_size'', ''world_size''), (''world_rank'', ''root_world_rank''),
     (''cart_rank'', ''root_cart_rank''), (''rows'', ''rows''), (''cols'', ''cols''), (''row'', ''root_row''),
     (''col'', ''root_col''), (''north'', ''root_north''), (''south'', ''root_south''), (''east'', ''root_east''),
     (''west'', ''root_west'')]"

definition topology_from_csv :: "csv_row \<Rightarrow> (string \<times> json) list res" where
  "topology_from_csv row =
     traverse (\<lambda>(key, column). bindR (csv_int row column) (\<lambda>v. Inr (key, int_entry v))) TOPOLOGY_COLUMNS"

definition METADATA_COLUMNS :: "(string \<times> bool) list" where
  "METADATA_COLUMNS = [(''memory_location'', False), (''mpi_library_version'', True),
     (''hip_runtime_version'', True), (''rocm_version'', True), (''rccl_sync_mode'', True),
     (''synchronization_model'', True), (''validation_enabled'', False), (''validation_passed'', False),
     (''nodes'', False), (''ranks_per_node'', False)]"

definition metadata_from_csv :: "csv_row \<Rightarrow> (string \<times> json) list res" where
  "metadata_from_csv row =
     traverse (\<lambda>(key, unquote). let cell = row_get_default row key [] in
         if unquote then bindR (unquote_csv_string cell) (\<lambda>s. Inr (key, JStr s))
         else Inr (key, opt_str cell)) METADATA_COLUMNS"

text \<open>\<^verbatim>\<open>float(row.get(k) or 0.0)\<close>.\<close>

definition csv_float_or_zero :: "csv_row \<Rightarrow> string \<Rightarrow> pyfloat res" where
  "csv_float_or_zero row k = (let cell = or_str (row_get row k) [] in
     if cell = [] then Inr (Fin 0) else of_option ValueError (py_float cell))"

definition phase_from_csv :: "csv_row \<Rightarrow> (string \<times> pyfloat) list option res" where
  "phase_from_csv row =
     (if list_ex (\<lambda>name. or_str (row_get row (''phase_'' @ name)) [] \<noteq> []) PHASE_FIELDS
      then bindR (traverse (\<lambda>name. bindR (csv_float_or_zero row (''phase_'' @ name))
             (\<lambda>x. Inr (name, x))) PHASE_FIELDS) (\<lambda>ps. Inr (Some ps))
      else Inr None)"

definition result_from_csv :: "path \<Rightarrow> csv_row \<Rightarrow> run_result res" where
  "result_from_csv source row =
     bindR (missing_field (\<lambda>f. \<not> none_or_empty (opt_str (row_get row f))) source) (\<lambda>_.
     bindR (topology_from_csv row) (\<lambda>top.
     bindR (metadata_from_csv row) (\<lambda>md.
     bindR (phase_from_csv row) (\<lambda>ph.
     let cell = (\<lambda>k. or_str (row_get row k) []) in
     bindR (of_option ValueError (py_int (cell ''halo_words''))) (\<lambda>hw.
     bindR (of_option ValueError (py_int (cell ''iterations''))) (\<lambda>its.
     bindR (of_option ValueError (py_float (cell ''max_average_seconds''))) (\<lambda>avg.
     bindR (csv_float_or_zero row ''max_total_seconds'') (\<lambda>tot.
     bindR (of_option ValueError (py_int (cell ''total_exchange_bytes_per_rank''))) (\<lambda>bytes.
     bindR (csv_int row ''word_bytes'') (\<lambda>wb.
     bindR (csv_int row ''n_message_bytes'') (\<lambda>nb.
     bindR (csv_int row ''two_n_message_bytes'') (\<lambda>tnb.
     Inr \<lparr>halo_words = hw, res_backend = cell ''backend'', res_algorithm = cell ''algorithm'',
          iterations = its, max_average_seconds = avg, max_total_seconds = tot,
          total_exchange_bytes_per_rank = bytes, word_bytes = wb, n_message_bytes = nb,
          two_n_message_bytes = tnb, topology = top, metadata = md, phase_timing = ph\<rparr>))))))))))))"

section \<open>One run\<close>

definition METADATA_NAMES :: "string list" where
  "METADATA_NAMES = [''system-resolution.txt'', ''submission.txt'', ''environment.txt'', ''git.txt'',
     ''slurm-job.txt'', ''command.txt'', ''exit-status.txt'', ''result-metadata.txt'']"

definition read_metadata_files :: "fs \<Rightarrow> path \<Rightarrow> (string \<times> string) list res" where
  "read_metadata_files fs rpath =
     (if fs_is_dir fs rpath
      then traverse (\<lambda>name. bindR (fs_text fs (child rpath name)) (\<lambda>t. Inr (name, t)))
             (filter (\<lambda>name. fs_exists fs (child rpath name)) METADATA_NAMES)
      else Inr [])"

definition load_json_run ::
    "fs \<Rightarrow> path \<Rightarrow> path \<Rightarrow> (string \<times> string) list \<Rightarrow> string list \<Rightarrow> run res" where
  "load_json_run fs source rpath mfiles warns =
     bindR (fs_text fs source) (\<lambda>text.
     case json_loads text of
       None \<Rightarrow> Inl (analysis_error source ''malformed JSON: '')
     | Some payload \<Rightarrow>
         bindR (as_obj payload) (\<lambda>p. case jget p ''results'' JNull of
           JList raw_results \<Rightarrow>
             bindR (traverse (result_from_json source) raw_results) (\<lambda>rs.
             Inr \<lparr>input_path = source, result_path = rpath,
                  version = json_str (jget p ''version'' (JStr [])), results = rs,
                  metadata_files = mfiles, warnings = warns, source_format = ''json''\<rparr>)
         | _ \<Rightarrow> Inl (analysis_error source ''missing results array'')))"

definition load_csv_run ::
    "fs \<Rightarrow> path \<Rightarrow> path \<Rightarrow> (string \<times> string) list \<Rightarrow> string list \<Rightarrow> run res" where
  "load_csv_run fs source rpath mfiles warns =
     bindR (fs_raw fs source) (\<lambda>text.
     case csv_dict_rows text of
       [] \<Rightarrow> Inl (analysis_error source ''empty CSV result set'')
     | row # others \<Rightarrow>
         bindR (traverse (result_from_csv source) (row # others)) (\<lambda>rs.
         Inr \<lparr>input_path = source, result_path = rpath,
              version = json_str (opt_str (row_get_default row ''version'' [])), results = rs,
              metadata_files = mfiles, warnings = warns, source_format = ''csv''\<rparr>))"

section \<open>Validation\<close>

definition world_size :: "run_result \<Rightarrow> json" where
  "world_size x = opt_json (map_of (topology x) ''world_size'')"

text \<open>Python's \<^verbatim>\<open>==\<close> on JSON values: numbers and booleans compare by value.\<close>

fun json_num :: "json \<Rightarrow> pyfloat option" where
  "json_num (JInt n) = Some (Fin (of_int n))"
| "json_num (JBool b) = Some (Fin (if b then 1 else 0))"
| "json_num (JFloat x) = Some x"
| "json_num _ = None"

lemma size_zip_elem: "(x, y) \<in> set (zip xs ys) \<Longrightarrow> size x \<le> size_list size xs"
  by (auto dest!: set_zip_leftD intro: size_list_estimation')

lemma size_obj_elem: "(k, x) \<in> set d \<Longrightarrow> size x \<le> size_list (size_prod (\<lambda>x. 0) size) d"
  by (auto intro: size_list_estimation')

function json_eq :: "json \<Rightarrow> json \<Rightarrow> bool" where
  "json_eq a b = (case (a, b) of
     (JList xs, JList ys) \<Rightarrow> length xs = length ys \<and> list_all (\<lambda>(x, y). json_eq x y) (zip xs ys)
   | (JObj d, JObj e) \<Rightarrow> length d = length e \<and>
        list_all (\<lambda>(k, x). case map_of e k of None \<Rightarrow> False | Some y \<Rightarrow> json_eq x y) d
   | _ \<Rightarrow> (case (json_num a, json_num b) of
        (Some x, Some y) \<Rightarrow> feq x y
      | (None, None) \<Rightarrow> a = b
      | _ \<Rightarrow> False))"
  by pat_completeness auto

termination
proof (relation "measure (\<lambda>(a, b). size a)", goal_cases)
  case (2 a b x y xs ys p u v)
  then have "(u, v) \<in> set (zip xs ys)" by simp
  from size_zip_elem[OF this] show ?case using 2 by (auto simp: less_Suc_eq_le)
next
  case (3 a b x y d e p k v w)
  then have "(k, v) \<in> set d" by simp
  from size_obj_elem[OF this] show ?case using 3 by (auto simp: less_Suc_eq_le)
qed simp

declare json_eq.simps [simp del]

definition positive_time :: "pyfloat \<Rightarrow> bool" where
  "positive_time t \<longleftrightarrow> \<not> fle t (Fin 0)"

definition validate_result :: "path \<Rightarrow> json \<Rightarrow> int list \<Rightarrow> run_result \<Rightarrow> int list res" where
  "validate_result source rank_count seen x =
     (if halo_words x \<in> set seen
        then Inl (analysis_error source (''duplicate halo size '' @ string_of_int (halo_words x)))
      else if \<not> positive_time (max_average_seconds x)
        then Inl (analysis_error source ''nonpositive max_average_seconds'')
      else if \<not> json_eq rank_count (world_size x)
        then Inl (analysis_error source ''inconsistent rank counts'')
      else Inr (halo_words x # seen))"

definition validate_run :: "run \<Rightarrow> unit res" where
  "validate_run r = (case results r of
     [] \<Rightarrow> Inl (analysis_error (input_path r) ''empty result set'')
   | x # _ \<Rightarrow> bindR (foldR (validate_result (input_path r) (world_size x)) [] (results r)) (\<lambda>_. Inr ()))"

text \<open>What validation establishes.\<close>

definition valid_run :: "run \<Rightarrow> bool" where
  "valid_run r \<longleftrightarrow> results r \<noteq> [] \<and> distinct (map halo_words (results r))
     \<and> list_all (\<lambda>x. positive_time (max_average_seconds x)) (results r)
     \<and> list_all (\<lambda>x. json_eq (world_size (hd (results r))) (world_size x)) (results r)"

lemma validate_results_iff:
  "foldR (validate_result source c) seen xs = Inr out
   \<longleftrightarrow> out = rev (map halo_words xs) @ seen
      \<and> distinct (map halo_words xs) \<and> set (map halo_words xs) \<inter> set seen = {}
      \<and> list_all (\<lambda>x. positive_time (max_average_seconds x)) xs
      \<and> list_all (\<lambda>x. json_eq c (world_size x)) xs"
  by (induction xs arbitrary: seen) (auto simp: validate_result_def bindR_eq_Inr_iff)

lemma validate_run_iff: "validate_run r = Inr () \<longleftrightarrow> valid_run r"
  by (cases "results r") (auto simp: validate_run_def valid_run_def bindR_eq_Inr_iff
      validate_results_iff simp del: foldR.simps)

lemma valid_run_warnings [simp]: "valid_run (r\<lparr>warnings := w\<rparr>) = valid_run r"
  by (simp add: valid_run_def)

definition choose_source :: "fs \<Rightarrow> path \<Rightarrow> (path \<times> path \<times> string) res" where
  "choose_source fs path =
     (if fs_is_dir fs path then
        (if fs_exists fs (child path ''ghalo.json'') then Inr (path, child path ''ghalo.json'', ''json'')
         else if fs_exists fs (child path ''ghalo.csv'') then Inr (path, child path ''ghalo.csv'', ''csv'')
         else Inl (analysis_error path ''result directory lacks ghalo.json or ghalo.csv''))
      else if lower (path_suffix path) = ''.json'' then Inr (path_parent path, path, ''json'')
      else if lower (path_suffix path) = ''.csv'' then Inr (path_parent path, path, ''csv'')
      else Inl (analysis_error path ''expected result directory, ghalo.json, or ghalo.csv''))"

definition exit_status_warnings :: "path \<Rightarrow> (string \<times> string) list \<Rightarrow> string list" where
  "exit_status_warnings rpath mfiles = (case map_of mfiles ''exit-status.txt'' of
     None \<Rightarrow> []
   | Some text \<Rightarrow> if strip text \<noteq> [] \<and> strip text \<noteq> ''0''
       then [str_path rpath @ '': exit-status.txt is nonzero ('' @ strip text @ '')''] else [])"

definition load_run :: "fs \<Rightarrow> string \<Rightarrow> run res" where
  "load_run fs path_text =
     bindR (choose_source fs (Path path_text)) (\<lambda>(rpath, source, format).
     bindR (read_metadata_files fs rpath) (\<lambda>mfiles.
     bindR (if format = ''json'' then load_json_run fs source rpath mfiles (exit_status_warnings rpath mfiles)
            else load_csv_run fs source rpath mfiles (exit_status_warnings rpath mfiles)) (\<lambda>r.
     bindR (validate_run r) (\<lambda>_.
     bindR (nodes r) (\<lambda>n.
     Inr (if n = None
          then r\<lparr>warnings := warnings r @ [str_path rpath @ '': node count is unknown'']\<rparr> else r))))))"

text \<open>A directory without a result file of its own stands for the bundles below it.\<close>

definition bundles_named :: "fs \<Rightarrow> path \<Rightarrow> string \<Rightarrow> path list" where
  "bundles_named fs path name = sort (map path_parent (filter (fs_is_file fs) (fs_rglob fs path name)))"

definition expand_path :: "fs \<Rightarrow> string \<Rightarrow> string list" where
  "expand_path fs path_text =
     (let path = Path path_text in
      if fs_is_dir fs path \<and> \<not> fs_exists fs (child path ''ghalo.json'')
         \<and> \<not> fs_exists fs (child path ''ghalo.csv'')
      then (let json = bundles_named fs path ''ghalo.json'';
                found = (if json = [] then bundles_named fs path ''ghalo.csv'' else json)
            in if found = [] then [path_text] else map str_path found)
      else [path_text])"

definition load_runs :: "fs \<Rightarrow> string list \<Rightarrow> run list res" where
  "load_runs fs paths = (if paths = [] then Inl (AnalysisError ''at least one input path is required'')
     else traverse (load_run fs) (concat (map (expand_path fs) paths)))"

section \<open>What loading promises\<close>

text \<open>
  The interface the analyses rely on: whatever loads a run from a key has validated it.
\<close>

locale run_loader =
  fixes load :: "'k \<Rightarrow> run res"
  assumes loaded_valid: "load k = Inr r \<Longrightarrow> valid_run r"
begin

lemma all_valid: "traverse load ks = Inr rs \<Longrightarrow> r \<in> set rs \<Longrightarrow> valid_run r"
  by (auto dest: traverse_set loaded_valid)

lemma loaded_nonempty: "load k = Inr r \<Longrightarrow> results r \<noteq> []"
  by (auto dest: loaded_valid simp: valid_run_def)

text \<open>A time of zero never becomes a divisor.\<close>

lemma time_not_zero:
  "load k = Inr r \<Longrightarrow> x \<in> set (results r) \<Longrightarrow> max_average_seconds x \<noteq> Fin 0"
  by (force dest!: loaded_valid simp: valid_run_def list_all_iff positive_time_def fle_def feq_def)

text \<open>Sizes identify results: the dictionary from sizes to results loses none of them.\<close>

lemma sizes_injective:
  "load k = Inr r \<Longrightarrow> x \<in> set (results r) \<Longrightarrow> y \<in> set (results r)
   \<Longrightarrow> halo_words x = halo_words y \<Longrightarrow> x = y"
  by (auto dest!: loaded_valid simp: valid_run_def distinct_map dest: inj_onD)

end

lemma load_run_InrD:
  "load_run fs k = Inr r \<Longrightarrow> \<exists>r0 w. validate_run r0 = Inr () \<and> (r = r0 \<or> r = r0\<lparr>warnings := w\<rparr>)"
  unfolding load_run_def bindR_eq_Inr_iff case_prod_unfold
  by (elim exE conjE) (simp split: if_split_asm; blast)

interpretation loader: run_loader "load_run fs" for fs
proof (unfold_locales)
  fix k r assume "load_run fs k = Inr r"
  from load_run_InrD[OF this] show "valid_run r" by (auto simp: validate_run_iff)
qed

lemma load_runs_valid:
  "load_runs fs paths = Inr rs \<Longrightarrow> r \<in> set rs \<Longrightarrow> valid_run r"
  by (auto simp: load_runs_def split: if_splits intro: loader.all_valid)

section \<open>A sample, for the witnesses\<close>

text \<open>Two bundles of one result each, and the runs they load as.\<close>

definition sample_json :: "string \<Rightarrow> string" where
  "sample_json time = ''{\"results\":[{\"backend\":\"RCCL\",\"algorithm\":\"a\",\"halo_words\":2,\"iterations\":1,\"max_average_seconds\":'' @ time
     @ '',\"total_exchange_bytes_per_rank\":8,\"topology\":{\"world_size\":4},\"metadata\":{\"nodes\":1,\"ranks_per_node\":4}}]}''"

definition sample_fs :: fs where
  "sample_fs = [([''d''], Dir), ([''d'', ''ghalo.json''], File (sample_json ''1'')),
     ([''e''], Dir), ([''e'', ''ghalo.json''], File (sample_json ''2''))]"

definition sample_result :: "int \<Rightarrow> pyfloat \<Rightarrow> run_result" where
  "sample_result n t = \<lparr>halo_words = n, res_backend = ''RCCL'', res_algorithm = ''a'', iterations = 1,
     max_average_seconds = t, max_total_seconds = Fin 0, total_exchange_bytes_per_rank = 4 * n,
     word_bytes = None, n_message_bytes = None, two_n_message_bytes = None,
     topology = [(''world_size'', JInt 4)], metadata = [(''nodes'', JInt 1), (''ranks_per_node'', JInt 4)],
     phase_timing = None\<rparr>"

definition sample_run :: "string \<Rightarrow> run_result list \<Rightarrow> run" where
  "sample_run name xs = \<lparr>input_path = [name, ''ghalo.json''], result_path = [name], version = [],
     results = xs, metadata_files = [], warnings = [], source_format = ''json''\<rparr>"

lemma load_sample_run:
  "load_run sample_fs ''d'' = Inr (sample_run ''d'' [sample_result 2 (Fin 1)])"
  "load_run sample_fs ''e'' = Inr (sample_run ''e'' [sample_result 2 (Fin 2)])"
  by code_simp+

lemma load_sample_runs:
  "load_runs sample_fs [''d'', ''e'']
   = Inr [sample_run ''d'' [sample_result 2 (Fin 1)], sample_run ''e'' [sample_result 2 (Fin 2)]]"
proof -
  have "expand_path sample_fs ''d'' = [''d'']" "expand_path sample_fs ''e'' = [''e'']" by code_simp+
  then show ?thesis by (simp add: load_runs_def load_sample_run)
qed

text \<open>The two sample runs.\<close>

abbreviation (input) sample_a :: run where "sample_a \<equiv> sample_run ''d'' [sample_result 2 (Fin 1)]"
abbreviation (input) sample_b :: run where "sample_b \<equiv> sample_run ''e'' [sample_result 2 (Fin 2)]"

lemma sample_valid: "valid_run sample_a" "valid_run sample_b"
  using load_runs_valid[OF load_sample_runs] by simp_all

section \<open>Properties\<close>

lemma load_runs_Inr:
  "load_runs fs paths = Inr rs \<longleftrightarrow> paths \<noteq> []
     \<and> list_all2 (\<lambda>p r. load_run fs p = Inr r) (concat (map (expand_path fs) paths)) rs"
  by (simp add: load_runs_def traverse_Inr_iff)

text \<open>C1: every run the tools load has results, one per size, each with a time that is not
  zero or less, and all with the rank count of the first.\<close>

theorem loaded_runs_valid:
  assumes "load_runs fs paths = Inr rs" "r \<in> set rs"
  shows "results r \<noteq> [] \<and> distinct (map halo_words (results r))
    \<and> (\<forall>x \<in> set (results r). \<not> fle (max_average_seconds x) (Fin 0)
         \<and> json_eq (world_size (hd (results r))) (world_size x))"
  using load_runs_valid[OF assms] by (simp add: valid_run_def list_all_iff positive_time_def)

theorem loaded_runs_valid_witness:
  "let r = sample_run ''d'' [sample_result 2 (Fin 1)]
   in results r \<noteq> [] \<and> distinct (map halo_words (results r))
    \<and> (\<forall>x \<in> set (results r). \<not> fle (max_average_seconds x) (Fin 0)
         \<and> json_eq (world_size (hd (results r))) (world_size x))"
  unfolding Let_def by (rule loaded_runs_valid[OF load_sample_runs]) simp

text \<open>C14: validation reports the first fault: after results that are in order, a repeated size
  is reported before a time that is not positive, and that before another rank count.\<close>

theorem validate_run_first_fault:
  assumes "results r = good @ x # rest" "valid_run (r\<lparr>results := good\<rparr>) \<or> good = []"
  shows "validate_run r =
    (if halo_words x \<in> set (map halo_words good)
       then Inl (AnalysisError (str_path (input_path r) @ '': duplicate halo size '' @ string_of_int (halo_words x)))
     else if fle (max_average_seconds x) (Fin 0)
       then Inl (AnalysisError (str_path (input_path r) @ '': nonpositive max_average_seconds''))
     else if \<not> json_eq (world_size (hd (good @ [x]))) (world_size x)
       then Inl (AnalysisError (str_path (input_path r) @ '': inconsistent rank counts''))
     else bindR (foldR (validate_result (input_path r) (world_size (hd (good @ [x]))))
            (halo_words x # rev (map halo_words good)) rest) (\<lambda>_. Inr ()))"
proof -
  let ?v = "validate_result (input_path r) (world_size (hd (good @ [x])))"
  have good: "foldR ?v [] good = Inr (rev (map halo_words good))"
    using assms(2) by (cases good) (auto simp: valid_run_def validate_results_iff simp del: foldR.simps)
  have "validate_run r = bindR (foldR ?v [] (good @ x # rest)) (\<lambda>_. Inr ())"
    by (cases good) (simp_all add: validate_run_def assms(1))
  also have "foldR ?v [] (good @ x # rest) = bindR (?v (rev (map halo_words good)) x) (\<lambda>s. foldR ?v s rest)"
    by (simp add: foldR_append good)
  finally show ?thesis by (simp add: validate_result_def positive_time_def analysis_error_def)
qed

theorem validate_run_first_fault_witness:
  "validate_run (sample_run ''d'' [sample_result 2 (Fin 1), sample_result 4 (Fin 0), sample_result 2 (Fin 1)])
   = Inl (AnalysisError ''d/ghalo.json: nonpositive max_average_seconds'')"
proof -
  let ?r = "sample_run ''d'' [sample_result 2 (Fin 1), sample_result 4 (Fin 0), sample_result 2 (Fin 1)]"
  have e: "results ?r = [sample_result 2 (Fin 1)] @ sample_result 4 (Fin 0) # [sample_result 2 (Fin 1)]"
    by (simp add: sample_run_def)
  have v: "valid_run (?r\<lparr>results := [sample_result 2 (Fin 1)]\<rparr>) \<or> [sample_result 2 (Fin 1)] = []" by code_simp
  show ?thesis unfolding validate_run_first_fault[OF e v] by code_simp
qed

text \<open>A size that is not a number leaves as \<^verbatim>\<open>ValueError\<close>, not as the tool's own error.\<close>

lemma malformed_size_raises_ValueError:
  "result_from_json src (JObj [(''backend'', JStr []), (''algorithm'', JStr []), (''halo_words'', JStr ''x''),
     (''total_exchange_bytes_per_rank'', JInt 8), (''iterations'', JInt 1), (''max_average_seconds'', JInt 1)])
   = Inl ValueError"
  by code_simp

end
