(* ===== verification/Analysis.thy ===== *)
theory Analysis
  imports Loading
begin

text \<open>
  \<^verbatim>\<open>tools/ghalo_analyze.py\<close>, analysis of loaded runs: the output order of runs and
  results, transfer rates and phase categories, the summary table, and the comparison of two
  runs.  A table row is a Python dictionary from column names to values; values are kept in
  the type of JSON values, which has every type the rows hold.
\<close>

type_synonym row = "(string, json) dict"

section \<open>Output order\<close>

type_synonym run_key =
  "string \<times> string \<times> int \<times> string \<times> int \<times> string \<times> int \<times> int \<times> int \<times> int \<times> string \<times> string"

definition run_output_sort_key :: "run \<Rightarrow> run_key res" where
  "run_output_sort_key r = bindR (nodes r) (\<lambda>nds.
     let (b, bl) = backend_sort_key (run_backend r);
         (m, ml) = rccl_sync_sort_key (rccl_sync_mode r);
         (n, nv) = optional_count_sort_key nds;
         (k, kv) = optional_count_sort_key (ranks r)
     in Inr (lower (system r), lower (rocm_version r), b, bl, m, ml, n, nv, k, kv, timestamp r,
             str_path (result_path r)))"

definition sorted_runs_for_output :: "run list \<Rightarrow> run list res" where
  "sorted_runs_for_output rs = sort_by run_output_sort_key rs"

definition result_output_sort_key :: "run_result \<Rightarrow> int \<times> int" where
  "result_output_sort_key x = (total_exchange_bytes_per_rank x, halo_words x)"

definition sorted_results :: "run \<Rightarrow> run_result list" where
  "sorted_results r = sort_key result_output_sort_key (results r)"

lemma set_sorted_results [simp]: "set (sorted_results r) = set (results r)"
  by (simp add: sorted_results_def)

section \<open>Rates and phases\<close>

definition GIB :: pyfloat where
  "GIB = Fin (1024 ^ 3)"

definition effective_bytes_per_second :: "run_result \<Rightarrow> pyfloat res" where
  "effective_bytes_per_second x =
     bindR (int_to_float (total_exchange_bytes_per_rank x)) (\<lambda>b. fdiv b (max_average_seconds x))"

definition effective_gib_per_second :: "run_result \<Rightarrow> pyfloat res" where
  "effective_gib_per_second x = bindR (effective_bytes_per_second x) (\<lambda>r. fdiv r GIB)"

definition phase_get :: "(string \<times> pyfloat) list \<Rightarrow> string \<Rightarrow> pyfloat" where
  "phase_get phase name = dict_get phase name (Fin 0)"

text \<open>\<^verbatim>\<open>a or b\<close> on floats.\<close>

definition or_float :: "pyfloat \<Rightarrow> pyfloat \<Rightarrow> pyfloat" where
  "or_float a b = (if fbool a then a else b)"

definition GENERIC_PHASES :: "string list" where
  "GENERIC_PHASES = [''north_south_communication_seconds'', ''transpose_copy_seconds'',
     ''transpose_sync_seconds'', ''east_west_communication_seconds'',
     ''north_south_communication_enqueue_seconds'', ''transpose_copy_enqueue_seconds'',
     ''east_west_communication_enqueue_seconds'', ''final_stream_sync_seconds'', ''total_exchange_seconds'']"

definition phase_categories :: "run_result \<Rightarrow> (string \<times> pyfloat) list" where
  "phase_categories x =
     (let phase = (case phase_timing x of None \<Rightarrow> [] | Some p \<Rightarrow> p);
          get = phase_get phase;
          generic = list_ex (\<lambda>name. flt (Fin 0) (fabs (get name))) GENERIC_PHASES;
          ns = or_float (get ''north_south_communication_seconds'') (get ''north_south_mpi_seconds'');
          tcopy = or_float (get ''transpose_copy_seconds'') (get ''transpose_device_copy_seconds'');
          tsync = or_float (get ''transpose_sync_seconds'') (get ''transpose_copy_sync_seconds'');
          ew = or_float (get ''east_west_communication_seconds'') (get ''east_west_mpi_seconds'');
          rest = fsub (max_average_seconds x) (get ''phase_sum_seconds'')
      in [(''device_copy_total_seconds'', fadd (get ''input_device_copy_seconds'') tcopy),
          (''communication_total_seconds'', fadd ns ew),
          (''mpi_total_seconds'', fadd (get ''north_south_mpi_seconds'') (get ''east_west_mpi_seconds'')),
          (''synchronization_total_seconds'',
             fadd (fadd (fadd (get ''north_south_sync_seconds'') tsync) (get ''east_west_sync_seconds''))
                  (get ''final_stream_sync_seconds'')),
          (''total_minus_sum_of_phase_maxima_seconds'',
             if generic then dict_get phase ''total_minus_sum_of_phase_maxima_seconds'' rest
             else dict_get phase ''unattributed_seconds'' rest)])"

section \<open>Summary rows\<close>

definition count_cell :: "int option \<Rightarrow> json" where
  "count_cell v = (case v of None \<Rightarrow> JStr [] | Some n \<Rightarrow> JInt n)"

definition update_row :: "row \<Rightarrow> row \<Rightarrow> row" where
  "update_row d e = foldl (\<lambda>d (k, v). AList.update k v d) d e"

definition metadata_cells :: "run \<Rightarrow> row" where
  "metadata_cells r =
     [(''build_system'', JStr (build_system r)), (''git_commit'', JStr (git_commit r)),
      (''slurm_job_id'', JStr (slurm_job_id r)), (''rocm_version'', JStr (rocm_version r)),
      (''rccl_sync_mode'', JStr (rccl_sync_mode r)), (''suite'', JStr (suite r)),
      (''timestamp'', JStr (timestamp r)), (''path_backend'', JStr (path_value r ''backend'')),
      (''path_label'', JStr (path_value r ''label'')), (''source_format'', JStr (source_format r)),
      (''input_path'', JStr (str_path (input_path r)))]"

definition phase_cells :: "run_result \<Rightarrow> row" where
  "phase_cells x = (case phase_timing x of None \<Rightarrow> []
     | Some phase \<Rightarrow> if phase = [] then []
         else map (\<lambda>name. (''phase_'' @ name, JFloat (phase_get phase name))) PHASE_FIELDS
              @ map (\<lambda>(k, v). (k, JFloat v)) (phase_categories x))"

text \<open>\<^verbatim>\<open>label_override or run.label\<close>.\<close>

definition label_or :: "string option \<Rightarrow> run \<Rightarrow> string res" where
  "label_or override r = (case override of Some s \<Rightarrow> if s = [] then label r else Inr s | None \<Rightarrow> label r)"

definition summary_row :: "run \<Rightarrow> bool \<Rightarrow> bool \<Rightarrow> string option \<Rightarrow> run_result \<Rightarrow> row res" where
  "summary_row r include_metadata with_phases override x =
     bindR (label_or override r) (\<lambda>lbl.
     bindR (nodes r) (\<lambda>nds.
     bindR (ranks_per_node r) (\<lambda>rpn.
     bindR (effective_bytes_per_second x) (\<lambda>bps.
     bindR (effective_gib_per_second x) (\<lambda>gib.
     let base =
          [(''label'', JStr lbl), (''system'', JStr (system r)), (''backend'', JStr (res_backend x)),
           (''algorithm'', JStr (res_algorithm x)),
           (''memory_type'', jget (metadata x) ''memory_location'' (JStr [])),
           (''ranks'', jget (topology x) ''world_size'' (JStr [])),
           (''cartesian_dimensions'', JStr (json_str (jget (topology x) ''rows'' (JStr [])) @ ''x''
              @ json_str (jget (topology x) ''cols'' (JStr [])))),
           (''nodes'', count_cell nds), (''ranks_per_node'', count_cell rpn),
           (''halo_words'', JInt (halo_words x)), (''iterations'', JInt (iterations x)),
           (''max_average_seconds'', JFloat (max_average_seconds x)),
           (''microseconds'', JFloat (fmul (max_average_seconds x) (Fin 1000000))),
           (''bytes_per_rank'', JInt (total_exchange_bytes_per_rank x)),
           (''per_rank_effective_transferred_byte_rate_Bps'', JFloat bps),
           (''per_rank_effective_transferred_byte_rate_GiBps'', JFloat gib)];
         with_meta = (if include_metadata then update_row base (metadata_cells r) else base)
     in Inr (if with_phases then update_row with_meta (phase_cells x) else with_meta))))))"

definition summary_rows :: "run \<Rightarrow> bool \<Rightarrow> bool \<Rightarrow> string option \<Rightarrow> row list res" where
  "summary_rows r include_metadata with_phases override =
     traverse (summary_row r include_metadata with_phases override) (sorted_results r)"

section \<open>Comparing two runs\<close>

definition results_by_halo :: "run \<Rightarrow> (int, run_result) dict" where
  "results_by_halo r = foldl (\<lambda>d x. AList.update (halo_words x) x d) [] (results r)"

fun target_after :: "string list \<Rightarrow> string" where
  "target_after (p # q # ps) = (if p = ''--target-seconds'' then q else target_after (q # ps))"
| "target_after _ = []"

definition extract_target_seconds :: "run \<Rightarrow> string" where
  "extract_target_seconds r = target_after (split_words (dict_get (metadata_files r) ''command.txt'' []))"

definition configuration_signature :: "run \<Rightarrow> row res" where
  "configuration_signature r =
     bindR (nodes r) (\<lambda>nds.
     bindR (ranks_per_node r) (\<lambda>rpn.
     bindR (cartesian r) (\<lambda>cart.
     Inr [(''active_system'', JStr (system r)), (''build_system'', JStr (build_system r)),
          (''backend'', JStr (run_backend r)), (''ranks'', int_entry (ranks r)),
          (''nodes'', int_entry nds), (''ranks_per_node'', int_entry rpn),
          (''cartesian_dimensions'', JStr cart), (''git_commit'', JStr (git_commit r)),
          (''phase_timing_enabled'', JBool (phase_timing_enabled r)),
          (''target_seconds'', JStr (extract_target_seconds r))])))"

definition configuration_differences :: "run \<Rightarrow> run \<Rightarrow> (string \<times> json \<times> json) list res" where
  "configuration_differences a b =
     bindR (configuration_signature a) (\<lambda>left.
     bindR (configuration_signature b) (\<lambda>right.
     Inr (map (\<lambda>(key, v). (key, v, opt_json (map_of right key)))
            (filter (\<lambda>(key, v). map_of right key \<noteq> Some v) left))))"

definition compare_row :: "bool \<Rightarrow> int \<Rightarrow> run_result option \<Rightarrow> run_result option \<Rightarrow> row res" where
  "compare_row differ halo ra rb = (case (ra, rb) of
     (Some x, Some y) \<Rightarrow>
       (let diff = fsub (max_average_seconds y) (max_average_seconds x) in
        bindR (fdiv diff (max_average_seconds x)) (\<lambda>q.
        bindR (fdiv (max_average_seconds y) (max_average_seconds x)) (\<lambda>ratio.
        Inr [(''halo_words'', JInt halo),
             (''time_A_seconds'', JFloat (max_average_seconds x)),
             (''time_B_seconds'', JFloat (max_average_seconds y)),
             (''absolute_difference_seconds'', JFloat diff),
             (''observed_percent_difference'', JFloat (fmul q (Fin 100))),
             (''ratio_B_over_A'', JFloat ratio),
             (''bytes_per_rank_A'', JInt (total_exchange_bytes_per_rank x)),
             (''bytes_per_rank_B'', JInt (total_exchange_bytes_per_rank y)),
             (''iterations_A'', JInt (iterations x)), (''iterations_B'', JInt (iterations y)),
             (''configuration_metadata_differs'', JBool differ)])))
   | _ \<Rightarrow> Inr [(''halo_words'', JInt halo), (''missing'', JStr (if ra = None then ''A'' else ''B''))])"

definition compare_rows :: "run \<Rightarrow> run \<Rightarrow> bool \<Rightarrow> row list res" where
  "compare_rows a b allow_missing =
     (let da = results_by_halo a; db = results_by_halo b;
          ka = set (keys_of da); kb = set (keys_of db)
      in if \<not> allow_missing \<and> ka \<noteq> kb
         then Inl (AnalysisError ''compare requires matching halo sizes; use --allow-missing-sizes to relax'')
         else bindR (configuration_differences a b) (\<lambda>differences.
              traverse (\<lambda>halo. compare_row (differences \<noteq> []) halo (map_of da halo) (map_of db halo))
                (sorted_list_of_set (if allow_missing then ka \<union> kb else ka \<inter> kb))))"

text \<open>\<^verbatim>\<open>row.get("observed_percent_difference", 0.0) > threshold\<close>.\<close>

definition percent_of :: "row \<Rightarrow> pyfloat" where
  "percent_of rw = (case map_of rw ''observed_percent_difference'' of Some (JFloat x) \<Rightarrow> x | _ \<Rightarrow> Fin 0)"

definition compare_exit :: "bool \<Rightarrow> pyfloat \<Rightarrow> row list \<Rightarrow> int" where
  "compare_exit fail_on_regression threshold_percent table =
     (if fail_on_regression \<and> list_ex (\<lambda>rw. flt threshold_percent (percent_of rw)) table then 1 else 0)"

section \<open>Output order and rates\<close>

lemma sample_order: "sorted_runs_for_output [sample_b, sample_a] = Inr [sample_a, sample_b]"
  by code_simp

text \<open>The order as the user sees it: columns, each a preference between two runs.  A name is
  placed by the first class it belongs to, and alphabetically inside its class; a known count
  comes before an unknown one.\<close>

definition class_index :: "(string \<Rightarrow> bool) list \<Rightarrow> string \<Rightarrow> nat" where
  "class_index classes s = length (takeWhile (\<lambda>c. \<not> c s) classes)"

definition named_before :: "(string \<Rightarrow> bool) list \<Rightarrow> string \<Rightarrow> string \<Rightarrow> bool" where
  "named_before classes s t \<longleftrightarrow> class_index classes s < class_index classes t
     \<or> class_index classes s = class_index classes t \<and> s \<le> t"

fun count_before :: "int option \<Rightarrow> int option \<Rightarrow> bool" where
  "count_before (Some m) (Some n) = (m \<le> n)" | "count_before None (Some _) = False" | "count_before _ None = True"

definition output_columns :: "(run \<Rightarrow> run \<Rightarrow> bool) list" where
  "output_columns =
     [\<lambda>a b. lower (system a) \<le> lower (system b),
      \<lambda>a b. lower (rocm_version a) \<le> lower (rocm_version b),
      \<lambda>a b. named_before [\<lambda>s. sublist ''mpi'' s \<and> sublist ''hip'' s, \<lambda>s. sublist ''rccl'' s, \<lambda>s. sublist ''mpi'' s]
         (lower (run_backend a)) (lower (run_backend b)),
      \<lambda>a b. named_before [\<lambda>s. s = [], \<lambda>s. s = ''conservative'', \<lambda>s. s = ''stream-ordered'']
         (lower (rccl_sync_mode a)) (lower (rccl_sync_mode b)),
      \<lambda>a b. case (nodes a, nodes b) of (Inr m, Inr n) \<Rightarrow> count_before m n | _ \<Rightarrow> False,
      \<lambda>a b. count_before (ranks a) (ranks b),
      \<lambda>a b. timestamp a \<le> timestamp b,
      \<lambda>a b. str_path (result_path a) \<le> str_path (result_path b)]"

lemma backend_order: "backend_sort_key s \<le> backend_sort_key t \<longleftrightarrow>
  named_before [\<lambda>s. sublist ''mpi'' s \<and> sublist ''hip'' s, \<lambda>s. sublist ''rccl'' s, \<lambda>s. sublist ''mpi'' s] (lower s) (lower t)"
  by (simp add: backend_sort_key_def named_before_def class_index_def Let_def)

lemma sync_order: "rccl_sync_sort_key s \<le> rccl_sync_sort_key t \<longleftrightarrow>
  named_before [\<lambda>s. s = [], \<lambda>s. s = ''conservative'', \<lambda>s. s = ''stream-ordered''] (lower s) (lower t)"
  by (simp add: rccl_sync_sort_key_def named_before_def class_index_def Let_def)

lemma count_order: "optional_count_sort_key m \<le> optional_count_sort_key n \<longleftrightarrow> count_before m n"
  by (cases m; cases n) (simp_all add: optional_count_sort_key_def)

lemma count_before_refl: "count_before n n"
  by (cases n) simp_all

lemma less_eq_pair: "(a, b) \<le> (a', b') \<longleftrightarrow> a \<le> (a'::'a::linorder) \<and> (a = a' \<longrightarrow> b \<le> (b'::'b::linorder))"
  by (auto simp: less_eq_prod_def)

fun flat_key :: "string \<times> string \<times> (int \<times> string) \<times> (int \<times> string) \<times> (int \<times> int) \<times> (int \<times> int) \<times> string \<times> string \<Rightarrow> run_key" where
  "flat_key (s, v, (b, bl), (m, ml), (n, nv), (k, kv), t, p) = (s, v, b, bl, m, ml, n, nv, k, kv, t, p)"

lemma flat_key_le: "flat_key x \<le> flat_key y \<longleftrightarrow> x \<le> y"
  by (cases x rule: flat_key.cases; cases y rule: flat_key.cases) (auto simp: less_eq_pair)

definition nested_key :: "run \<Rightarrow> int option \<Rightarrow> string \<times> string \<times> (int \<times> string) \<times> (int \<times> string) \<times> (int \<times> int) \<times> (int \<times> int) \<times> string \<times> string" where
  "nested_key r n = (lower (system r), lower (rocm_version r), backend_sort_key (run_backend r),
     rccl_sync_sort_key (rccl_sync_mode r), optional_count_sort_key n, optional_count_sort_key (ranks r),
     timestamp r, str_path (result_path r))"

lemma output_key: "run_output_sort_key r = bindR (nodes r) (\<lambda>n. Inr (flat_key (nested_key r n)))"
  by (cases "nodes r"; cases "optional_count_sort_key (projr (nodes r))"; cases "backend_sort_key (run_backend r)";
      cases "rccl_sync_sort_key (rccl_sync_mode r)"; cases "optional_count_sort_key (ranks r)")
    (simp_all add: run_output_sort_key_def nested_key_def Let_def)

lemma output_column_order:
  assumes ka: "run_output_sort_key a = Inr ka" and kb: "run_output_sort_key b = Inr kb" and le: "ka \<le> kb"
    and k: "k < 8" and same: "\<And>m. m < k \<Longrightarrow> (output_columns ! m) a b \<and> (output_columns ! m) b a"
  shows "(output_columns ! k) a b"
proof -
  obtain na nb where n: "nodes a = Inr na" "nodes b = Inr nb" and "nested_key a na \<le> nested_key b nb"
    using ka kb le by (auto simp: output_key bindR_eq_Inr_iff flat_key_le)
  note le = this(3)[unfolded nested_key_def less_eq_pair]
  note cols = output_columns_def n backend_order[symmetric] sync_order[symmetric] count_order[symmetric]
  have same: "m < k \<Longrightarrow> (output_columns ! m) a b \<and> (output_columns ! m) b a" for m by (rule same)
  consider "k = 0" | "k = 1" | "k = 2" | "k = 3" | "k = 4" | "k = 5" | "k = 6" | "k = 7" using k by linarith
  then show ?thesis
    by cases (use le same[of 0] same[of 1] same[of 2] same[of 3] same[of 4] same[of 5] same[of 6] in
      \<open>simp add: cols order.eq_iff[symmetric]\<close>)+
qed

text \<open>C27: the output order of runs is by system, then ROCm version, then backend (MPI-HIP before RCCL
  before MPI before any other), then synchronization mode (none, conservative, stream-ordered,
  others), then nodes and then ranks (fewer first, unknown last), then time stamp, then path: each
  column decides among the runs that agree in all earlier ones.  No run is lost, and runs with the
  same key keep the order they came in.\<close>

theorem runs_in_output_order:
  assumes "sorted_runs_for_output rs = Inr ys"
  shows "mset ys = mset rs
    \<and> (\<forall>i j k. i < j \<and> j < length ys \<and> k < 8
         \<and> (\<forall>m < k. (output_columns ! m) (ys ! i) (ys ! j) \<and> (output_columns ! m) (ys ! j) (ys ! i))
         \<longrightarrow> (output_columns ! k) (ys ! i) (ys ! j))
    \<and> filter (\<lambda>r. run_output_sort_key r = Inr key) ys = filter (\<lambda>r. run_output_sort_key r = Inr key) rs"
proof -
  note s = assms[unfolded sorted_runs_for_output_def]
  obtain ks where ks: "traverse run_output_sort_key ys = Inr ks" "sorted ks" using sort_by_keys[OF s] by blast
  have l: "list_all2 (\<lambda>r k. run_output_sort_key r = Inr k) ys ks" using ks(1) by (simp add: traverse_Inr_iff)
  have "(output_columns ! k) (ys ! i) (ys ! j)" if "i < j" "j < length ys" "k < 8"
    "\<forall>m < k. (output_columns ! m) (ys ! i) (ys ! j) \<and> (output_columns ! m) (ys ! j) (ys ! i)" for i j k
  proof (rule output_column_order[OF _ _ _ that(3)])
    show "run_output_sort_key (ys ! i) = Inr (ks ! i)" "run_output_sort_key (ys ! j) = Inr (ks ! j)"
      using list_all2_nthD[OF l] that by simp_all
    show "ks ! i \<le> ks ! j" using ks(2) that list_all2_lengthD[OF l] by (simp add: sorted_nth_mono)
  qed (use that(4) in blast)
  then show ?thesis using sort_by_mset[OF s] sort_by_stable[OF s] by blast
qed

theorem runs_in_output_order_witness:
  "str_path (result_path sample_a) \<le> str_path (result_path sample_b)"
proof -
  have "nodes sample_a = Inr (Some 1) \<and> nodes sample_b = Inr (Some 1) \<and> ranks sample_a = ranks sample_b
    \<and> system sample_a = system sample_b \<and> rocm_version sample_a = rocm_version sample_b
    \<and> run_backend sample_a = run_backend sample_b \<and> rccl_sync_mode sample_a = rccl_sync_mode sample_b
    \<and> timestamp sample_a = timestamp sample_b" by code_simp
  then have "(output_columns ! m) sample_a sample_b \<and> (output_columns ! m) sample_b sample_a" if "m < 7" for m
    using that by (auto simp: output_columns_def less_Suc_eq numeral_eq_Suc named_before_def count_before_refl)
  then have "(output_columns ! 7) sample_a sample_b"
    using runs_in_output_order[OF sample_order, THEN conjunct2, THEN conjunct1, rule_format, of 0 1 7] by simp
  then show ?thesis by (simp add: output_columns_def)
qed

text \<open>C28: the rates of every result of a loaded run are defined exactly when the byte count is below
  the overflow threshold of \<^verbatim>\<open>float()\<close>, \<open>2 ^ 1024 - 2 ^ 970\<close>, and then for a finite time the
  rate is the correctly rounded quotient of the rounded count and the time; for larger counts, which the loader
  accepts, both raise OverflowError.  The time is never a zero divisor.\<close>

theorem loaded_rates_defined:
  assumes "load_runs fs paths = Inr rs" "r \<in> set rs" "x \<in> set (results r)"
  shows "if \<bar>total_exchange_bytes_per_rank x\<bar> < 2 ^ 1024 - 2 ^ 970
    then (\<exists>b g. effective_bytes_per_second x = Inr b \<and> effective_gib_per_second x = Inr g
      \<and> (\<forall>t. max_average_seconds x = Fin t \<longrightarrow> b = to_float (rnd64 (of_int (total_exchange_bytes_per_rank x)) / t)))
    else effective_bytes_per_second x = Inl OverflowError \<and> effective_gib_per_second x = Inl OverflowError"
proof -
  have t: "max_average_seconds x \<noteq> Fin 0"
    using load_runs_valid[OF assms(1,2)] assms(3)
    by (auto simp: valid_run_def list_all_iff positive_time_def fle_def feq_def)
  have "(1024::rat) ^ 3 \<noteq> 0" by simp
  then have g: "\<exists>g. fdiv b GIB = Inr g" for b by (simp add: fdiv_def GIB_def)
  show ?thesis
  proof (cases "\<bar>total_exchange_bytes_per_rank x\<bar> < 2 ^ 1024 - 2 ^ 970")
    case True
    then have "effective_bytes_per_second x = fdiv (Fin (rnd64 (of_int (total_exchange_bytes_per_rank x)))) (max_average_seconds x)"
      by (simp only: effective_bytes_per_second_def int_to_float_iff if_True bindR_Inr)
    then obtain b where b: "effective_bytes_per_second x = Inr b"
      "\<forall>t. max_average_seconds x = Fin t \<longrightarrow> b = to_float (rnd64 (of_int (total_exchange_bytes_per_rank x)) / t)"
      using t by (auto simp: fdiv_def)
    obtain g where "effective_gib_per_second x = Inr g" using g[of b] b(1) by (auto simp: effective_gib_per_second_def)
    then show ?thesis using True b by auto
  next
    case False
    then have "effective_bytes_per_second x = Inl OverflowError"
      by (simp only: effective_bytes_per_second_def int_to_float_iff if_False bindR_Inl)
    then show ?thesis using False unfolding effective_gib_per_second_def by (simp only: if_False bindR_Inl simp_thms)
  qed
qed

theorem loaded_rates_defined_witness:
  "\<exists>g. effective_bytes_per_second (sample_result 2 (Fin 1)) = Inr (to_float (rnd64 8))
    \<and> effective_gib_per_second (sample_result 2 (Fin 1)) = Inr g"
proof -
  have "\<bar>total_exchange_bytes_per_rank (sample_result 2 (Fin 1))\<bar> < 2 ^ 1024 - 2 ^ 970"
    by (simp add: sample_result_def)
  then show ?thesis using loaded_rates_defined[OF load_sample_runs, of sample_a "sample_result 2 (Fin 1)"]
    unfolding if_P by (auto simp: sample_run_def sample_result_def)
qed

section \<open>Comparison\<close>

lemma results_by_halo_valid:
  "valid_run r \<Longrightarrow> results_by_halo r = map (\<lambda>x. (halo_words x, x)) (results r)"
proof -
  assume "valid_run r"
  then have "distinct (map fst ([] @ map (\<lambda>x. (halo_words x, x)) (results r)))"
    by (simp add: valid_run_def comp_def)
  then have "foldl (\<lambda>d (k, v). AList.update k v d) [] (map (\<lambda>x. (halo_words x, x)) (results r))
      = map (\<lambda>x. (halo_words x, x)) (results r)"
    by (subst foldl_update_fresh) simp_all
  then show ?thesis by (simp add: results_by_halo_def foldl_map)
qed

lemma results_by_halo_iff:
  assumes "valid_run r"
  shows "map_of (results_by_halo r) h = Some x \<longleftrightarrow> x \<in> set (results r) \<and> halo_words x = h"
proof -
  have "distinct (map fst (results_by_halo r))"
    using assms by (simp add: results_by_halo_valid valid_run_def comp_def)
  then show ?thesis using assms by (auto simp: results_by_halo_valid)
qed

lemma keys_results_by_halo: "valid_run r \<Longrightarrow> set (keys_of (results_by_halo r)) = halo_words ` set (results r)"
  by (force simp: results_by_halo_valid)

text \<open>The sizes two runs are compared at.\<close>

definition compared_sizes :: "run \<Rightarrow> run \<Rightarrow> int set" where
  "compared_sizes a b = halo_words ` set (results a) \<union> halo_words ` set (results b)"

lemma compare_rows_table:
  assumes "valid_run a" "valid_run b" "compare_rows a b m = Inr table"
  obtains differences where "configuration_differences a b = Inr differences"
    "m \<or> halo_words ` set (results a) = halo_words ` set (results b)"
    "list_all2 (\<lambda>h rw. compare_row (differences \<noteq> []) h (map_of (results_by_halo a) h)
        (map_of (results_by_halo b) h) = Inr rw) (sorted_list_of_set (compared_sizes a b)) table"
proof -
  have same: "m \<or> halo_words ` set (results a) = halo_words ` set (results b)"
    using assms(3) unfolding compare_rows_def Let_def keys_results_by_halo[OF assms(1)] keys_results_by_halo[OF assms(2)]
    by (auto split: if_splits)
  then have s: "(if m then halo_words ` set (results a) \<union> halo_words ` set (results b)
      else halo_words ` set (results a) \<inter> halo_words ` set (results b)) = compared_sizes a b"
    by (auto simp: compared_sizes_def)
  show ?thesis
    using that same assms
    unfolding compare_rows_def Let_def keys_results_by_halo[OF assms(1)] keys_results_by_halo[OF assms(2)] s
    by (auto simp: bindR_eq_Inr_iff traverse_Inr_iff split: if_splits)
qed

lemma compare_row_size: "compare_row d h ra rb = Inr rw \<Longrightarrow> map_of rw ''halo_words'' = Some (JInt h)"
  by (auto simp: compare_row_def Let_def bindR_eq_Inr_iff split: option.splits)

lemma compare_samples:
  "compare_rows sample_a sample_b False = Inr (projr (compare_rows sample_a sample_b False))"
  by (rule not_isl_Inr) code_simp

text \<open>C3: a comparison has one row per size, in increasing order; a row for a size both runs have
  carries the two times and byte counts, and a size only one run has is marked with the run
  that lacks it, which is only accepted on request.\<close>

theorem compare_rows_complete:
  assumes "valid_run a" "valid_run b" "compare_rows a b m = Inr table"
  shows "map (\<lambda>rw. map_of rw ''halo_words'') table = map (\<lambda>h. Some (JInt h)) (sorted_list_of_set (compared_sizes a b))
    \<and> (\<forall>x \<in> set (results a). \<forall>y \<in> set (results b). halo_words x = halo_words y \<longrightarrow>
         (\<exists>rw \<in> set table. map_of rw ''halo_words'' = Some (JInt (halo_words x))
            \<and> map_of rw ''time_A_seconds'' = Some (JFloat (max_average_seconds x))
            \<and> map_of rw ''time_B_seconds'' = Some (JFloat (max_average_seconds y))
            \<and> map_of rw ''bytes_per_rank_A'' = Some (JInt (total_exchange_bytes_per_rank x))
            \<and> map_of rw ''bytes_per_rank_B'' = Some (JInt (total_exchange_bytes_per_rank y))))
    \<and> (\<forall>h \<in> compared_sizes a b. h \<notin> halo_words ` set (results a) \<or> h \<notin> halo_words ` set (results b) \<longrightarrow>
         m \<and> [(''halo_words'', JInt h), (''missing'', JStr (if h \<in> halo_words ` set (results a) then ''B'' else ''A''))]
               \<in> set table)"
proof -
  obtain ds where "configuration_differences a b = Inr ds" and m: "m \<or> halo_words ` set (results a) = halo_words ` set (results b)"
    and tab: "list_all2 (\<lambda>h rw. compare_row (ds \<noteq> []) h (map_of (results_by_halo a) h)
        (map_of (results_by_halo b) h) = Inr rw) (sorted_list_of_set (compared_sizes a b)) table"
    by (rule compare_rows_table[OF assms])
  have sizes: "set (sorted_list_of_set (compared_sizes a b)) = compared_sizes a b"
    by (simp add: compared_sizes_def)
  have row: "\<exists>rw \<in> set table. compare_row (ds \<noteq> []) h (map_of (results_by_halo a) h)
        (map_of (results_by_halo b) h) = Inr rw" if "h \<in> compared_sizes a b" for h
    using list_all2_in1[OF tab] that by (simp only: sizes)
  have "map (\<lambda>rw. map_of rw ''halo_words'') table = map (\<lambda>h. Some (JInt h)) (sorted_list_of_set (compared_sizes a b))"
    using list_all2_lengthD[OF tab]
    by (intro nth_equalityI) (simp_all add: compare_row_size[OF list_all2_nthD[OF tab]])
  moreover have "\<exists>rw \<in> set table. map_of rw ''halo_words'' = Some (JInt (halo_words x))
            \<and> map_of rw ''time_A_seconds'' = Some (JFloat (max_average_seconds x))
            \<and> map_of rw ''time_B_seconds'' = Some (JFloat (max_average_seconds y))
            \<and> map_of rw ''bytes_per_rank_A'' = Some (JInt (total_exchange_bytes_per_rank x))
            \<and> map_of rw ''bytes_per_rank_B'' = Some (JInt (total_exchange_bytes_per_rank y))"
    if xy: "x \<in> set (results a)" "y \<in> set (results b)" "halo_words x = halo_words y" for x y
  proof -
    have "map_of (results_by_halo a) (halo_words x) = Some x" "map_of (results_by_halo b) (halo_words x) = Some y"
      using results_by_halo_iff assms(1,2) xy by auto
    moreover have "halo_words x \<in> compared_sizes a b" using xy by (simp add: compared_sizes_def)
    ultimately obtain rw where "rw \<in> set table" "compare_row (ds \<noteq> []) (halo_words x) (Some x) (Some y) = Inr rw"
      using row by fastforce
    then show ?thesis by (intro bexI[of _ rw]) (auto simp: compare_row_def Let_def bindR_eq_Inr_iff)
  qed
  moreover have "m \<and> [(''halo_words'', JInt h), (''missing'', JStr (if h \<in> halo_words ` set (results a) then ''B'' else ''A''))]
               \<in> set table"
    if h: "h \<in> compared_sizes a b" "h \<notin> halo_words ` set (results a) \<or> h \<notin> halo_words ` set (results b)" for h
  proof -
    have look: "map_of (results_by_halo r) h = None \<longleftrightarrow> h \<notin> halo_words ` set (results r)" if "valid_run r" for r
      using keys_results_by_halo[OF that] by (simp add: map_of_eq_None_iff)
    obtain rw where rw: "rw \<in> set table" "compare_row (ds \<noteq> []) h (map_of (results_by_halo a) h)
        (map_of (results_by_halo b) h) = Inr rw" using row[OF h(1)] by blast
    have "rw = [(''halo_words'', JInt h), (''missing'', JStr (if h \<in> halo_words ` set (results a) then ''B'' else ''A''))]"
      using rw(2) h(2) look[OF assms(1)] look[OF assms(2)]
      by (auto simp: compare_row_def split: option.splits)
    moreover have m using m h by (auto simp: compared_sizes_def)
    ultimately show ?thesis using rw(1) by simp
  qed
  ultimately show ?thesis by blast
qed

theorem compare_rows_complete_witness:
  "map (\<lambda>rw. map_of rw ''halo_words'') (projr (compare_rows sample_a sample_b False))
   = map (\<lambda>h. Some (JInt h)) (sorted_list_of_set (compared_sizes sample_a sample_b))"
  by (rule compare_rows_complete[OF sample_valid compare_samples, THEN conjunct1])

lemma compare_row_accuracy:
  assumes "float64 s" "float64 t" "1 / 2 ^ 100 \<le> s" "s \<le> 2 ^ 100" "1 / 2 ^ 100 \<le> t" "t \<le> 2 ^ 100"
  obtains d q p r where "fsub (Fin t) (Fin s) = Fin d" "fdiv (Fin d) (Fin s) = Inr q" "fmul q (Fin 100) = Fin p"
    "fdiv (Fin t) (Fin s) = Inr (Fin r)" "\<bar>d - (t - s)\<bar> \<le> \<bar>t - s\<bar> / 2 ^ 53"
    "\<bar>p - 100 * (t - s) / s\<bar> \<le> \<bar>100 * (t - s) / s\<bar> / 2 ^ 51" "\<bar>r - t / s\<bar> \<le> t / s / 2 ^ 53"
proof -
  have pos: "0 < s" "0 < t" using assms(3,5) by (auto intro: less_le_trans[rotated])
  have p: "(2::rat) powi (- 100) = 1 / 2 ^ 100" "(2::rat) powi (- 152) = 1 / 2 ^ 152"
    by (simp_all add: power_int_def power_one_over)
  have "t = s \<or> 1 / 2 ^ 152 \<le> \<bar>t - s\<bar>"
    using float64_difference[OF assms(2,1), of "- 100"] assms(3,5) by (auto simp: p)
  moreover have "\<bar>t - s\<bar> \<le> 2 ^ 152" using assms(4,6) pos by (simp add: abs_le_iff)
  ultimately have D: "in_scale 152 (t - s)" by (simp add: in_scale_def)
  obtain a where a: "\<bar>a\<bar> \<le> 1 / 2 ^ 53" "to_float (t - s) = Fin ((t - s) * (1 + a))"
    using in_scale_to_float[OF D] by auto
  have D1: "in_scale 253 ((t - s) * (1 + a) / s)"
    using in_scale_div[OF in_scale_factor[OF D a(1)] assms(3,4)] by simp
  obtain b where b: "\<bar>b\<bar> \<le> 1 / 2 ^ 53" "to_float ((t - s) * (1 + a) / s) = Fin ((t - s) * (1 + a) / s * (1 + b))"
    using in_scale_to_float[OF D1] by auto
  have D2: "in_scale 261 ((t - s) * (1 + a) / s * (1 + b) * 100)"
    using in_scale_mult[OF in_scale_factor[OF D1 b(1)], of 7 100] by simp
  obtain c where c: "\<bar>c\<bar> \<le> 1 / 2 ^ 53" "to_float ((t - s) * (1 + a) / s * (1 + b) * 100)
      = Fin ((t - s) * (1 + a) / s * (1 + b) * 100 * (1 + c))"
    using in_scale_to_float[OF D2] by auto
  have "in_scale 200 (t / s)" using in_scale_div[of 100 t 100 s] assms pos by (simp add: in_scale_def)
  then obtain e where e: "\<bar>e\<bar> \<le> 1 / 2 ^ 53" "to_float (t / s) = Fin (t / s * (1 + e))"
    using in_scale_to_float by fastforce
  show thesis
  proof (rule that)
    show "fsub (Fin t) (Fin s) = Fin ((t - s) * (1 + a))" by (simp add: fsub_def a(2))
    show "fdiv (Fin ((t - s) * (1 + a))) (Fin s) = Inr (Fin ((t - s) * (1 + a) / s * (1 + b)))"
      using pos by (simp add: fdiv_def b(2))
    show "fmul (Fin ((t - s) * (1 + a) / s * (1 + b))) (Fin 100) = Fin ((t - s) * (1 + a) / s * (1 + b) * 100 * (1 + c))"
      by (simp only: fmul_def prod.case pyfloat.case c(2))
    show "fdiv (Fin t) (Fin s) = Inr (Fin (t / s * (1 + e)))" using pos by (simp add: fdiv_def e(2))
    have "\<bar>(t - s) * (1 + a) - (t - s)\<bar> \<le> \<bar>t - s\<bar> * (1 / 2 ^ 53)" by (rule relative_bound[OF refl]) (use a(1) in simp)
    then show "\<bar>(t - s) * (1 + a) - (t - s)\<bar> \<le> \<bar>t - s\<bar> / 2 ^ 53" by simp
    have "\<bar>t / s * (1 + e) - t / s\<bar> \<le> \<bar>t / s\<bar> * (1 / 2 ^ 53)" by (rule relative_bound[OF refl]) (use e(1) in simp)
    then show "\<bar>t / s * (1 + e) - t / s\<bar> \<le> t / s / 2 ^ 53" using pos by simp
    have "\<bar>(t - s) * (1 + a) / s * (1 + b) * 100 * (1 + c) - 100 * (t - s) / s\<bar> \<le> \<bar>100 * (t - s) / s\<bar> * (1 / 2 ^ 51)"
      by (rule relative_bound[OF _ three_roundings[OF a(1) b(1) c(1) refl]])
        (simp only: times_divide_eq_left times_divide_eq_right mult_ac)
    then show "\<bar>(t - s) * (1 + a) / s * (1 + b) * 100 * (1 + c) - 100 * (t - s) / s\<bar> \<le> \<bar>100 * (t - s) / s\<bar> / 2 ^ 51"
      by simp
  qed
qed

text \<open>C29: the differences of a comparison are accurate: for times between \<open>2 ^ -100\<close> and \<open>2 ^ 100\<close>
  seconds the difference and the ratio are within one part in \<open>2 ^ 53\<close> of B minus A and B over A, the
  percentage within one part in \<open>2 ^ 51\<close> of the exact one, so all have the right sign and are zero
  only for equal times, and the row says whether the configurations differ.\<close>

theorem comparison_accuracy:
  assumes "valid_run a" "valid_run b" "compare_rows a b m = Inr table"
    "x \<in> set (results a)" "y \<in> set (results b)" "halo_words x = halo_words y"
    "max_average_seconds x = Fin s" "float64 s" "1 / 2 ^ 100 \<le> s" "s \<le> 2 ^ 100"
    "max_average_seconds y = Fin t" "float64 t" "1 / 2 ^ 100 \<le> t" "t \<le> 2 ^ 100"
  shows "\<exists>rw \<in> set table. \<exists>d p r. map_of rw ''halo_words'' = Some (JInt (halo_words x))
    \<and> map_of rw ''absolute_difference_seconds'' = Some (JFloat (Fin d)) \<and> \<bar>d - (t - s)\<bar> \<le> \<bar>t - s\<bar> / 2 ^ 53
    \<and> map_of rw ''observed_percent_difference'' = Some (JFloat (Fin p))
    \<and> \<bar>p - 100 * (t - s) / s\<bar> \<le> \<bar>100 * (t - s) / s\<bar> / 2 ^ 51
    \<and> map_of rw ''ratio_B_over_A'' = Some (JFloat (Fin r)) \<and> \<bar>r - t / s\<bar> \<le> t / s / 2 ^ 53
    \<and> map_of rw ''configuration_metadata_differs'' = Some (JBool (configuration_differences a b \<noteq> Inr []))"
proof -
  obtain ds where ds: "configuration_differences a b = Inr ds" and tab: "list_all2 (\<lambda>h rw. compare_row (ds \<noteq> []) h
      (map_of (results_by_halo a) h) (map_of (results_by_halo b) h) = Inr rw) (sorted_list_of_set (compared_sizes a b)) table"
    by (rule compare_rows_table[OF assms(1-3)])
  have "halo_words x \<in> set (sorted_list_of_set (compared_sizes a b))" using assms(4) by (simp add: compared_sizes_def)
  from list_all2_in1[OF tab this] obtain rw where rw: "rw \<in> set table" "compare_row (ds \<noteq> []) (halo_words x)
      (map_of (results_by_halo a) (halo_words x)) (map_of (results_by_halo b) (halo_words x)) = Inr rw" by blast
  have look: "map_of (results_by_halo a) (halo_words x) = Some x" "map_of (results_by_halo b) (halo_words x) = Some y"
    using results_by_halo_iff assms(1,2,4-6) by auto
  obtain d q p r where ar: "fsub (Fin t) (Fin s) = Fin d" "fdiv (Fin d) (Fin s) = Inr q" "fmul q (Fin 100) = Fin p"
    "fdiv (Fin t) (Fin s) = Inr (Fin r)" "\<bar>d - (t - s)\<bar> \<le> \<bar>t - s\<bar> / 2 ^ 53"
    "\<bar>p - 100 * (t - s) / s\<bar> \<le> \<bar>100 * (t - s) / s\<bar> / 2 ^ 51" "\<bar>r - t / s\<bar> \<le> t / s / 2 ^ 53"
    by (rule compare_row_accuracy[OF assms(8,12,9,10,13,14)])
  have "map_of rw ''halo_words'' = Some (JInt (halo_words x))
    \<and> map_of rw ''absolute_difference_seconds'' = Some (JFloat (Fin d))
    \<and> map_of rw ''observed_percent_difference'' = Some (JFloat (Fin p))
    \<and> map_of rw ''ratio_B_over_A'' = Some (JFloat (Fin r))
    \<and> map_of rw ''configuration_metadata_differs'' = Some (JBool (configuration_differences a b \<noteq> Inr []))"
    using rw(2) unfolding look ds by (auto simp: compare_row_def assms(7,11) ar(1-4))
  then show ?thesis using rw(1) ar(5-7) by blast
qed

theorem comparison_accuracy_witness:
  "\<exists>rw \<in> set (projr (compare_rows sample_a sample_b False)). \<exists>d p r.
    map_of rw ''absolute_difference_seconds'' = Some (JFloat (Fin d))
    \<and> map_of rw ''observed_percent_difference'' = Some (JFloat (Fin p)) \<and> \<bar>p - 100\<bar> \<le> 100 / 2 ^ 51
    \<and> map_of rw ''ratio_B_over_A'' = Some (JFloat (Fin r)) \<and> \<bar>r - 2\<bar> \<le> 2 / 2 ^ 53"
  using comparison_accuracy[OF sample_valid compare_samples, of "sample_result 2 (Fin 1)" "sample_result 2 (Fin 2)" 1 2]
    float64_of_int[of 1] float64_of_int[of 2]
  by (auto simp: sample_run_def sample_result_def)

end
