(* ===== verification/PyJsonText.thy ===== *)
theory PyJsonText
  imports PyJson
begin

text \<open>
  Writing JSON values as text, the way \<^verbatim>\<open>json.dumps\<close> does: on one line, or
  indented by two, with the keys of objects sorted or in insertion order.
\<close>

text \<open>\<^verbatim>\<open>json.dumps(value, indent=2)\<close>, with \<^verbatim>\<open>sort_keys\<close> as a flag; text
  is escaped to ASCII.\<close>

definition json_char :: "char \<Rightarrow> string" where
  "json_char c =
     (if c = CHR 0x22 \<or> c = CHR 0x5C then [CHR 0x5C, c]
      else if code c = 8 then [CHR 0x5C, CHR ''b''] else if code c = 9 then [CHR 0x5C, CHR ''t'']
      else if code c = 10 then [CHR 0x5C, CHR ''n''] else if code c = 12 then [CHR 0x5C, CHR ''f'']
      else if code c = 13 then [CHR 0x5C, CHR ''r'']
      else if code c < 32 \<or> 126 < code c
        then [CHR 0x5C, CHR ''u'', CHR ''0'', CHR ''0'', hex_digit (code c div 16), hex_digit (code c mod 16)]
      else [c])"

definition json_quote :: "string \<Rightarrow> string" where
  "json_quote s = CHR 0x22 # concat (map json_char s) @ [CHR 0x22]"

definition json_float_text :: "pyfloat \<Rightarrow> string" where
  "json_float_text x = (case x of PInf \<Rightarrow> ''Infinity'' | NInf \<Rightarrow> ''-Infinity'' | NaN \<Rightarrow> ''NaN''
     | _ \<Rightarrow> float_repr x)"

definition indent_of :: "nat \<Rightarrow> string" where
  "indent_of n = LF # replicate (2 * n) (CHR '' '')"

definition bracketed :: "char \<Rightarrow> char \<Rightarrow> nat \<Rightarrow> string list \<Rightarrow> string" where
  "bracketed l r n items = (if items = [] then [l, r]
     else [l] @ indent_of (Suc n) @ join ('','' @ indent_of (Suc n)) items @ indent_of n @ [r])"

fun json_dump :: "bool \<Rightarrow> nat \<Rightarrow> json \<Rightarrow> string" where
  "json_dump srt n JNull = ''null''"
| "json_dump srt n (JBool b) = (if b then ''true'' else ''false'')"
| "json_dump srt n (JInt k) = string_of_int k"
| "json_dump srt n (JFloat x) = json_float_text x"
| "json_dump srt n (JStr s) = json_quote s"
| "json_dump srt n (JList xs) = bracketed (CHR ''['') (CHR '']'') n (map (json_dump srt (Suc n)) xs)"
| "json_dump srt n (JObj d) = bracketed (CHR ''{'') (CHR ''}'') n
     (map (\<lambda>(k, s). json_quote k @ '': '' @ s)
       (let entries = map (\<lambda>(k, v). (k, json_dump srt (Suc n) v)) d
        in if srt then sort_key fst entries else entries))"

definition json_dumps :: "bool \<Rightarrow> json \<Rightarrow> string" where
  "json_dumps srt v = json_dump srt 0 v"

text \<open>Without indentation: \<^verbatim>\<open>json.dumps(value, sort_keys=True)\<close>.\<close>

fun json_line :: "json \<Rightarrow> string" where
  "json_line (JList xs) = CHR ''['' # join '', '' (map json_line xs) @ '']''"
| "json_line (JObj d) = CHR ''{'' # join '', ''
     (map (\<lambda>(k, s). json_quote k @ '': '' @ s)
       (sort_key fst (map (\<lambda>(k, v). (k, json_line v)) d))) @ ''}''"
| "json_line v = json_dump True 0 v"

end
