(* ===== verification/Rendering.thy ===== *)
theory Rendering
  imports Analysis PyJsonText
begin

text \<open>
  \<^verbatim>\<open>tools/ghalo_analyze.py\<close>, output: the columns of a table, its four formats
  (CSV, Markdown, plain text, JSON), and writing the text to a file or to the standard
  output.  Whether a directory is writable is a parameter.
\<close>

section \<open>Tables\<close>

definition ordered_fields :: "row list \<Rightarrow> string list" where
  "ordered_fields table = foldl (\<lambda>seen rw. foldl add_new seen (map fst rw)) [] table"

lemma ordered_fields_uniq: "ordered_fields table = uniq (concat (map (map fst) table))"
proof -
  have "foldl (\<lambda>seen rw. foldl add_new seen (map fst rw)) acc table
        = foldl add_new acc (concat (map (map fst) table))" for acc
    by (induction table arbitrary: acc) simp_all
  then show ?thesis by (simp add: ordered_fields_def uniq_def)
qed

definition format_cell :: "json \<Rightarrow> string" where
  "format_cell value = (case value of JFloat x \<Rightarrow> format_g 12 x | _ \<Rightarrow> json_str value)"

definition cell :: "row \<Rightarrow> string \<Rightarrow> json" where
  "cell rw field = jget rw field (JStr [])"

text \<open>The CSV writer leaves a missing value empty and writes any other as \<^verbatim>\<open>str\<close> does.\<close>

definition csv_text :: "json \<Rightarrow> string" where
  "csv_text value = (if value = JNull then [] else json_str value)"

definition rows_to_csv :: "row list \<Rightarrow> string" where
  "rows_to_csv table = (if table = [] then []
     else (let fields = ordered_fields table
           in csv_write (fields # map (\<lambda>rw. map (\<lambda>f. csv_text (cell rw f)) fields) table)))"

definition markdown_line :: "string list \<Rightarrow> string" where
  "markdown_line cells = ''| '' @ join '' | '' cells @ '' |''"

definition rows_to_markdown :: "row list \<Rightarrow> string" where
  "rows_to_markdown table = (if table = [] then ''_No rows._'' @ [LF]
     else (let fields = ordered_fields table
           in unlines (markdown_line fields # markdown_line (map (\<lambda>_. ''---'') fields)
                # map (\<lambda>rw. markdown_line (map (\<lambda>f. format_cell (cell rw f)) fields)) table)))"

definition ljust :: "nat \<Rightarrow> string \<Rightarrow> string" where
  "ljust n s = s @ replicate (n - length s) (CHR '' '')"

definition column_width :: "row list \<Rightarrow> string \<Rightarrow> nat" where
  "column_width table field =
     foldl max (length field) (map (\<lambda>rw. length (format_cell (cell rw field))) table)"

definition table_line :: "(string \<Rightarrow> nat) \<Rightarrow> string list \<Rightarrow> (string \<Rightarrow> string) \<Rightarrow> string" where
  "table_line widths columns text = join ''  '' (map (\<lambda>f. ljust (widths f) (text f)) columns)"

definition rows_to_table :: "row list \<Rightarrow> string" where
  "rows_to_table table = (if table = [] then ''No rows.'' @ [LF]
     else (let fields = ordered_fields table; widths = column_width table
           in unlines (table_line widths fields (\<lambda>f. f)
                # join ''  '' (map (\<lambda>f. replicate (widths f) (CHR ''-'')) fields)
                # map (\<lambda>rw. table_line widths fields (\<lambda>f. format_cell (cell rw f))) table)))"

section \<open>Writing\<close>

definition ensure_rows :: "json \<Rightarrow> row list res" where
  "ensure_rows value = (case value of
     JList xs \<Rightarrow> traverse as_obj xs
   | JObj d \<Rightarrow> (case map_of d ''rows'' of
       Some (JList xs) \<Rightarrow> traverse as_obj xs
     | Some _ \<Rightarrow> Inl TypeError
     | None \<Rightarrow> Inl (AnalysisError ''selected format requires tabular rows''))
   | _ \<Rightarrow> Inl (AnalysisError ''selected format requires tabular rows''))"

definition ensure_output_parent :: "(path \<Rightarrow> bool) \<Rightarrow> fs \<Rightarrow> path \<Rightarrow> fs res" where
  "ensure_output_parent writable fs p =
     (let parent = path_parent p in
      if parent = [] then Inr fs
      else if fs_exists fs parent \<and> \<not> fs_is_dir fs parent
        then Inl (AnalysisError (''output parent exists but is not a directory: '' @ str_path parent))
      else bindR (fs_mkdirs fs parent) (\<lambda>fs'.
        if writable parent then Inr fs'
        else Inl (AnalysisError (''output parent is not writable: '' @ str_path parent))))"

definition render :: "json \<Rightarrow> string \<Rightarrow> string res" where
  "render payload fmt =
     (if fmt = ''json'' then Inr (json_dumps True payload @ [LF])
      else if fmt = ''csv'' then bindR (ensure_rows payload) (\<lambda>t. Inr (rows_to_csv t))
      else if fmt = ''markdown'' then bindR (ensure_rows payload) (\<lambda>t. Inr (rows_to_markdown t))
      else if fmt = ''table'' then bindR (ensure_rows payload) (\<lambda>t. Inr (rows_to_table t))
      else Inl (AnalysisError (''unsupported output format '' @ fmt)))"

definition write_output ::
    "(path \<Rightarrow> bool) \<Rightarrow> json \<Rightarrow> string \<Rightarrow> string option \<Rightarrow> io \<Rightarrow> io res" where
  "write_output writable payload fmt output s =
     bindR (render payload fmt) (\<lambda>text.
     if or_str output [] = [] then Inr (s\<lparr>io_out := io_out s @ text\<rparr>)
     else (let p = Path (or_str output []) in
       bindR (ensure_output_parent writable (io_files s) p) (\<lambda>fs.
       bindR (fs_write fs p text) (\<lambda>fs'. Inr (s\<lparr>io_files := fs'\<rparr>)))))"

definition table_json :: "row list \<Rightarrow> json" where
  "table_json table = JList (map JObj table)"

lemma ensure_rows_table [simp]: "ensure_rows (table_json table) = Inr table"
proof -
  have "traverse as_obj (map JObj table) = Inr table"
    by (induction table) (simp_all add: as_obj_def)
  then show ?thesis by (simp add: ensure_rows_def table_json_def)
qed

definition write_warnings :: "run list \<Rightarrow> io \<Rightarrow> io" where
  "write_warnings rs s = s\<lparr>io_err := io_err s
     @ concat (map (\<lambda>w. ''warning: '' @ w @ [LF]) (concat (map warnings rs)))\<rparr>"

section \<open>What the formats keep\<close>

text \<open>The columns of a table are the keys of its rows, each once, in the order in which they
  first occur.\<close>

lemma ordered_fields_spec:
  "distinct (ordered_fields table) \<and> set (ordered_fields table) = (\<Union>rw \<in> set table. fst ` set rw)
    \<and> subseq (ordered_fields table) (concat (map (map fst) table))"
  by (simp add: ordered_fields_uniq subseq_uniq)

lemma dict_row_full:
  "distinct header \<Longrightarrow> length cells = length header \<Longrightarrow> dict_row header cells = zip header (map Some cells)"
  using foldl_update_fresh[of "[]" "zip header (map Some cells)"] by (simp add: dict_row_def)

text \<open>C18: the CSV text of a table is read back, by the reader the tools use, as the same rows: every
  column with the text of its cell, whatever characters it holds.\<close>

theorem csv_table_reads_back:
  assumes "table \<noteq> []" "ordered_fields table \<noteq> []"
  shows "csv_fieldnames (rows_to_csv table) = Some (ordered_fields table)
    \<and> csv_dict_rows (rows_to_csv table)
      = map (\<lambda>rw. map (\<lambda>f. (f, Some (csv_text (cell rw f)))) (ordered_fields table)) table"
proof -
  let ?f = "ordered_fields table" and ?c = "\<lambda>rw. map (\<lambda>f. csv_text (cell rw f)) (ordered_fields table)"
  have rows: "csv_rows (rows_to_csv table) = ?f # map ?c table"
    using assms(1) by (simp add: rows_to_csv_def Let_def csv_write_read)
  have "dict_row ?f (?c rw) = map (\<lambda>f. (f, Some (csv_text (cell rw f)))) ?f" for rw
    by (simp add: dict_row_full ordered_fields_uniq zip_map2 zip_same_conv_map)
  moreover have "filter (\<lambda>r. r \<noteq> []) (map ?c table) = map ?c table"
    using assms(2) by (simp add: filter_id_conv)
  ultimately show ?thesis by (simp add: csv_fieldnames_def csv_dict_rows_def rows)
qed

theorem csv_table_reads_back_witness:
  "csv_dict_rows (rows_to_csv [[(''a'', JStr ''x,y''), (''b'', JStr [CHR 0x22])], [(''b'', JInt 2)]])
   = [[(''a'', Some ''x,y''), (''b'', Some [CHR 0x22])], [(''a'', Some []), (''b'', Some ''2'')]]"
proof -
  let ?t = "[[(''a'', JStr ''x,y''), (''b'', JStr [CHR 0x22])], [(''b'', JInt 2)]] :: row list"
  have f: "ordered_fields ?t = [''a'', ''b'']" by code_simp
  have "json_str (JStr s) = s" for s by (simp add: json_str_def)
  moreover have "json_str (JInt 2) = ''2''" by code_simp
  ultimately show ?thesis using csv_table_reads_back[of ?t, THEN conjunct2]
    by (simp add: f cell_def jget_def csv_text_def)
qed

lemma length_ljust [simp]: "length (ljust n s) = max n (length s)"
  by (simp add: ljust_def)

lemma foldl_max_start: "m \<le> foldl max (m::nat) xs"
  by (induction xs arbitrary: m) (auto intro: order_trans[OF max.cobounded1])

lemma foldl_max_mem: "x \<in> set xs \<Longrightarrow> x \<le> foldl max (m::nat) xs"
  by (induction xs arbitrary: m) (auto intro: order_trans[OF max.cobounded2 foldl_max_start])

lemma length_join: "xs \<noteq> [] \<Longrightarrow> length (join s xs) = sum_list (map length xs) + (length xs - 1) * length s"
  by (induction s xs rule: join.induct) (auto simp: algebra_simps)

lemma length_table_line:
  assumes "columns \<noteq> []" "\<And>f. f \<in> set columns \<Longrightarrow> length (text f) \<le> widths f"
  shows "length (table_line widths columns text) = sum_list (map widths columns) + (length columns - 1) * 2"
proof -
  have "map (\<lambda>f. length (ljust (widths f) (text f))) columns = map widths columns"
    using assms(2) by (auto simp: max_absorb1)
  then have "sum_list (map length (map (\<lambda>f. ljust (widths f) (text f)) columns)) = sum_list (map widths columns)"
    by (simp only: map_map comp_def)
  then show ?thesis using assms(1) by (simp only: table_line_def length_join) (simp add: length_join)
qed

text \<open>The lines of a plain table.\<close>

definition table_lines :: "row list \<Rightarrow> string list" where
  "table_lines table = (let fields = ordered_fields table; widths = column_width table
     in table_line widths fields (\<lambda>f. f)
        # join ''  '' (map (\<lambda>f. replicate (widths f) (CHR ''-'')) fields)
        # map (\<lambda>rw. table_line widths fields (\<lambda>f. format_cell (cell rw f))) table)"

text \<open>C39: a plain table is aligned: its lines, the header and the rule included, all have the same
  length, the sum of the column widths and the gaps.\<close>

theorem table_aligned:
  assumes "table \<noteq> []" "ordered_fields table \<noteq> []"
  shows "rows_to_table table = unlines (table_lines table) \<and> length (table_lines table) = length table + 2
    \<and> (\<forall>l \<in> set (table_lines table). length l = sum_list (map (column_width table) (ordered_fields table))
         + (length (ordered_fields table) - 1) * 2)"
proof -
  let ?f = "ordered_fields table" and ?w = "column_width table"
  have w: "length f \<le> ?w f" "rw \<in> set table \<Longrightarrow> length (format_cell (cell rw f)) \<le> ?w f" for f rw
    unfolding column_width_def by (rule foldl_max_start, rule foldl_max_mem) simp
  have "length (join ''  '' (map (\<lambda>f. replicate (?w f) (CHR ''-'')) ?f)) = sum_list (map ?w ?f) + (length ?f - 1) * 2"
    using assms(2) by (simp add: length_join comp_def)
  then show ?thesis using w assms
    by (auto simp: rows_to_table_def table_lines_def Let_def length_table_line)
qed

theorem table_aligned_witness:
  "rows_to_table [[(''n'', JStr ''ab'')]] = unlines (table_lines [[(''n'', JStr ''ab'')]])"
  by (rule table_aligned[THEN conjunct1]) (simp, code_simp)

lemma ensure_output_parent_files:
  "ensure_output_parent w fs p = Inr fs' \<Longrightarrow> map_of fs' q = Some (File t) \<longleftrightarrow> map_of fs q = Some (File t)"
  by (auto simp: ensure_output_parent_def Let_def bindR_eq_Inr_iff mkdirs_file_iff split: if_splits)

lemma ensure_output_parent_entries:
  "ensure_output_parent w fs p = Inr fs' \<Longrightarrow> map_of fs' q = map_of fs q
     \<or> map_of fs q = None \<and> map_of fs' q = Some Dir \<and> prefix q (path_parent p)"
  using mkdirs_entries[of fs "path_parent p" fs' q]
  by (auto simp: ensure_output_parent_def Let_def bindR_eq_Inr_iff split: if_splits)

text \<open>C40: output to a file stores exactly the rendered text there and leaves the two streams and
  every other entry alone, but for directories above the file that were missing and are made;
  output without a file name only appends the text to the standard output.\<close>

theorem write_output_effect:
  assumes "write_output writable payload fmt output s = Inr s'"
  shows "\<exists>text. render payload fmt = Inr text \<and>
    (if or_str output [] = [] then s' = s\<lparr>io_out := io_out s @ text\<rparr>
     else (let p = Path (or_str output []) in
       s' = s\<lparr>io_files := io_files s'\<rparr> \<and> map_of (io_files s') p = Some (File text)
       \<and> (\<forall>q. q = p \<or> map_of (io_files s') q = map_of (io_files s) q
            \<or> map_of (io_files s) q = None \<and> map_of (io_files s') q = Some Dir \<and> strict_prefix q p)))"
proof -
  obtain tx where t: "render payload fmt = Inr tx"
    using assms by (auto simp: write_output_def bindR_eq_Inr_iff)
  show ?thesis
  proof (cases "or_str output [] = []")
    case True
    then show ?thesis using assms t by (auto simp: write_output_def)
  next
    case False
    let ?p = "Path (or_str output [])"
    obtain fs fs' where f: "ensure_output_parent writable (io_files s) ?p = Inr fs" "fs_write fs ?p tx = Inr fs'"
      "s' = s\<lparr>io_files := fs'\<rparr>"
      using assms False t by (auto simp: write_output_def bindR_eq_Inr_iff Let_def)
    show ?thesis using t False f(3) fs_write_lookup[OF f(2)] ensure_output_parent_entries[OF f(1)] written_parent(2)[OF f(2)]
      by (auto simp: Let_def)
  qed
qed

theorem write_output_effect_witness:
  "\<exists>text s'. render (table_json []) ''table'' = Inr text
    \<and> write_output (\<lambda>_. True) (table_json []) ''table'' (Some ''o/t.txt'') \<lparr>io_files = [], io_out = [], io_err = []\<rparr> = Inr s'
    \<and> map_of (io_files s') [''o'', ''t.txt''] = Some (File text) \<and> io_out s' = []"
proof -
  let ?w = "write_output (\<lambda>_. True) (table_json []) ''table'' (Some ''o/t.txt'') \<lparr>io_files = [], io_out = [], io_err = []\<rparr>"
  have "\<not> isl ?w" by code_simp
  then obtain s' where w: "?w = Inr s'" by (cases ?w) auto
  have "or_str (Some ''o/t.txt'') [] = ''o/t.txt''" "Path ''o/t.txt'' = [''o'', ''t.txt'']" by code_simp+
  then obtain tx where t: "render (table_json []) ''table'' = Inr tx" "map_of (io_files s') [''o'', ''t.txt''] = Some (File tx)"
    and s: "s' = \<lparr>io_files = [], io_out = [], io_err = []\<rparr>\<lparr>io_files := io_files s'\<rparr>"
    using write_output_effect[OF w] by (auto simp: Let_def)
  have "io_out s' = []" by (subst s) simp
  then show ?thesis using w t by blast
qed

text \<open>Cells of a Markdown table are not escaped: a bar in a cell starts another column.\<close>

lemma markdown_bar_not_escaped:
  "rows_to_markdown [[(''a'', JStr ''x|y'')]] = ''| a |'' @ [LF] @ ''| --- |'' @ [LF] @ ''| x|y |'' @ [LF]"
  by code_simp

end
