(* ===== verification/Labels.thy ===== *)
theory Labels
  imports Rendering
begin

text \<open>
  \<^verbatim>\<open>tools/ghalo_analyze.py\<close>, naming: label overrides, the labels of a list of
  runs, and the slugs that become file names.
\<close>

section \<open>Labels\<close>

text \<open>\<^verbatim>\<open>--label\<close> values, then the comma-separated \<^verbatim>\<open>--labels\<close>.\<close>

definition label_overrides :: "string list \<Rightarrow> string option \<Rightarrow> nat \<Rightarrow> string option list res" where
  "label_overrides label_args comma_labels n =
     (let labels = label_args @ (if or_str comma_labels [] = [] then []
                                 else map strip (split_on (CHR '','') (or_str comma_labels [])))
      in if labels \<noteq> [] \<and> length labels \<noteq> n
         then Inl (AnalysisError (''received '' @ string_of_int (int (length labels))
           @ '' label override(s) for '' @ string_of_int (int n) @ '' input run(s)''))
         else Inr (if labels = [] then replicate n None else map Some labels))"

text \<open>The suffix of a label that occurred before: the loop over \<^verbatim>\<open>seen\<close>.\<close>

fun number_repeats :: "(string, int) dict \<Rightarrow> string list \<Rightarrow> string list" where
  "number_repeats seen [] = []"
| "number_repeats seen (l # ls) =
     (let n = dict_get seen l 0
      in (if n = 0 then l else l @ '' | repeat '' @ string_of_int (n + 1))
         # number_repeats (AList.update l (n + 1) seen) ls)"

definition run_labels :: "run list \<Rightarrow> string option list \<Rightarrow> string list res" where
  "run_labels rs overrides =
     bindR (traverse (\<lambda>(r, override). label_or override r) (zip rs overrides)) (\<lambda>labels.
     Inr (number_repeats [] labels))"

section \<open>Slugs\<close>

definition filename_slug :: "string \<Rightarrow> string \<Rightarrow> string" where
  "filename_slug text def =
     (let slug = strip_chars ''-_.'' (squeeze slug_char (CHR ''-'') (lower (strip text)))
      in if slug = [] then def else slug)"

definition run_comparison_slug :: "run \<Rightarrow> string res" where
  "run_comparison_slug r = bindR (nodes r) (\<lambda>nds.
     Inr (filename_slug (join ''-'' ([display_backend (run_backend r)] @ text_part (rccl_sync_mode r)
        @ (case nds of None \<Rightarrow> [] | Some n \<Rightarrow> [string_of_int n @ ''node''])
        @ (case ranks r of None \<Rightarrow> [] | Some n \<Rightarrow> [string_of_int n @ ''rank'']))) ''run''))"

section \<open>Labels of repeated runs\<close>

definition numbered_label :: "string \<Rightarrow> int \<Rightarrow> string" where
  "numbered_label l n = (if n = 0 then l else l @ '' | repeat '' @ string_of_int (n + 1))"

lemma string_of_int_decimal: "0 \<le> n \<Longrightarrow> c \<in> set (string_of_int n) \<Longrightarrow> is_decimal c"
  by (auto simp: string_of_int_def dest: digits_of_decimal)

lemma takeWhile_decimal_end:
  assumes "mark \<noteq> []" "\<not> is_decimal (last mark)" "\<forall>c \<in> set d. is_decimal c"
  shows "takeWhile is_decimal (rev (l @ mark @ d)) = rev d"
proof -
  obtain m c where m: "mark = m @ [c]" using assms(1) by (metis append_butlast_last_id)
  show ?thesis using takeWhile_append2[of "rev d" is_decimal "c # rev m @ rev l"] assms(2,3) by (simp add: m)
qed

lemma trailing_digits:
  assumes "l @ mark @ d = l' @ mark @ d'" "mark \<noteq> []" "\<not> is_decimal (last mark)"
    "\<forall>c \<in> set d. is_decimal c" "\<forall>c \<in> set d'. is_decimal c"
  shows "l = l' \<and> d = d'"
proof -
  have "rev d = rev d'"
    using takeWhile_decimal_end[OF assms(2,3,4), of l] takeWhile_decimal_end[OF assms(2,3,5), of l']
    by (simp only: assms(1))
  then show ?thesis using assms(1) by simp
qed

lemma numbered_label_inj:
  assumes "numbered_label l m = numbered_label k n" "0 \<le> m" "0 \<le> n"
    "\<not> sublist '' | repeat '' l" "\<not> sublist '' | repeat '' k"
  shows "l = k \<and> m = n"
proof -
  define mark where "mark = '' | repeat ''"
  have mark: "mark \<noteq> []" "\<not> is_decimal (last mark)" by (simp_all add: mark_def is_decimal_def code_def)
  have sub: "sublist mark (x @ mark @ y)" for x y unfolding sublist_def by blast
  have digits: "\<forall>c \<in> set (string_of_int (p + 1)). is_decimal c" if "0 \<le> p" for p
    using that by (auto intro: string_of_int_decimal[of "p + 1"])
  show ?thesis
  proof (cases "m = 0 \<or> n = 0")
    case True
    then show ?thesis using assms(1,4,5) sub
      unfolding numbered_label_def mark_def[symmetric] by (auto split: if_splits)
  next
    case False
    then have "l @ mark @ string_of_int (m + 1) = k @ mark @ string_of_int (n + 1)"
      using assms(1) by (simp add: numbered_label_def mark_def)
    from trailing_digits[OF this mark digits digits] show ?thesis using assms(2,3) by (simp add: string_of_int_inj)
  qed
qed

lemma number_repeats_mem:
  "t \<in> set (number_repeats seen ls) \<Longrightarrow> \<exists>l n. l \<in> set ls \<and> dict_get seen l 0 \<le> n \<and> t = numbered_label l n"
proof (induction ls arbitrary: seen)
  case (Cons l ls)
  let ?n = "dict_get seen l 0"
  consider "t = numbered_label l ?n" | "t \<in> set (number_repeats (AList.update l (?n + 1) seen) ls)"
    using Cons.prems by (auto simp: numbered_label_def Let_def)
  then show ?case
  proof cases
    case 2
    then obtain k n where k: "k \<in> set ls" "dict_get (AList.update l (?n + 1) seen) k 0 \<le> n" "t = numbered_label k n"
      using Cons.IH by blast
    have "dict_get seen k 0 \<le> n" using k(2) by (auto simp: dict_get_def update_conv split: if_splits option.splits)
    then show ?thesis using k by auto
  qed auto
qed simp

lemma number_repeats_distinct:
  "\<forall>l \<in> set ls. \<not> sublist '' | repeat '' l \<Longrightarrow> \<forall>l. 0 \<le> dict_get seen l (0::int) \<Longrightarrow> distinct (number_repeats seen ls)"
proof (induction ls arbitrary: seen)
  case (Cons l ls)
  let ?n = "dict_get seen l 0" and ?s = "AList.update l (dict_get seen l 0 + 1) seen"
  have get: "dict_get ?s k 0 = (if k = l then ?n + 1 else dict_get seen k 0)" for k
    by (auto simp: dict_get_def update_conv)
  have nonneg: "\<forall>l. 0 \<le> dict_get ?s l 0" using Cons.prems(2) by (auto simp: get)
  have "numbered_label l ?n \<notin> set (number_repeats ?s ls)"
  proof
    assume "numbered_label l ?n \<in> set (number_repeats ?s ls)"
    then obtain k n where k: "k \<in> set ls" "dict_get ?s k 0 \<le> n" "numbered_label l ?n = numbered_label k n"
      using number_repeats_mem by blast
    have "0 \<le> n" using k(2) nonneg order_trans by blast
    then have "l = k \<and> ?n = n" using numbered_label_inj[OF k(3)] Cons.prems k(1) by auto
    then show False using k(2) get[of k] by auto
  qed
  moreover have "distinct (number_repeats ?s ls)" using Cons.IH[OF _ nonneg] Cons.prems(1) by simp
  ultimately show ?case by (simp add: numbered_label_def Let_def)
qed simp

lemma length_number_repeats: "length (number_repeats seen ls) = length ls"
  by (induction ls arbitrary: seen) (simp_all add: Let_def)

text \<open>C36: the labels of a plot are told apart: as long as no label already contains the text that
  marks a repeat, the labels of the runs are distinct, one per run.\<close>

theorem run_labels_distinct:
  assumes "run_labels rs overrides = Inr labels" "length overrides = length rs"
    "traverse (\<lambda>(r, override). label_or override r) (zip rs overrides) = Inr plain"
    "\<forall>l \<in> set plain. \<not> sublist '' | repeat '' l"
  shows "length labels = length rs \<and> distinct labels"
proof -
  have l: "labels = number_repeats [] plain" using assms(1,3) by (simp add: run_labels_def)
  have "distinct labels" unfolding l
    by (rule number_repeats_distinct[OF assms(4)]) (simp add: dict_get_def)
  then show ?thesis using traverse_length[OF assms(3)] assms(2) by (simp add: l length_number_repeats)
qed

theorem run_labels_distinct_witness:
  "\<exists>labels. run_labels [sample_a, sample_a] [Some ''x'', Some ''x''] = Inr labels \<and> distinct labels"
proof -
  have l: "run_labels [sample_a, sample_a] [Some ''x'', Some ''x''] = Inr [''x'', ''x | repeat 2'']"
    "traverse (\<lambda>(r, override). label_or override r) (zip [sample_a, sample_a] [Some ''x'', Some ''x'']) = Inr [''x'', ''x'']"
    by code_simp+
  have "\<not> sublist '' | repeat '' ''x''" by (auto simp: sublist_def Cons_eq_append_conv)
  then show ?thesis using run_labels_distinct[OF l(1) _ l(2)] l(1) by simp
qed

text \<open>Without that condition two runs can share a label.\<close>

lemma run_labels_may_clash:
  "number_repeats [] [''a | repeat 2'', ''a'', ''a''] = [''a | repeat 2'', ''a'', ''a | repeat 2'']"
  by code_simp

section \<open>Slugs\<close>

definition lower_slug_char :: "char \<Rightarrow> bool" where
  "lower_slug_char c \<longleftrightarrow> slug_char c \<and> lower_char c = c"

interpretation slug: file_namer "\<lambda>s. filename_slug s ''run''" lower_slug_char "\<lambda>c. c \<in> set ''-_.''"
proof
  fix s
  let ?q = "squeeze slug_char (CHR ''-'') (lower (strip s))"
  have "lower_slug_char c" if "c \<in> set ?q" for c
  proof -
    have "slug_char c" by (rule squeeze_ok[OF _ that]) (simp add: slug_char_def)
    moreover have "c = CHR ''-'' \<or> c \<in> set (lower (strip s))" using set_squeeze that by blast
    then have "lower_char c = c" by (auto simp: lower_def lower_char_def is_upper_ascii_def code_def)
    ultimately show ?thesis by (simp add: lower_slug_char_def)
  qed
  then have "list_all lower_slug_char (strip_chars ''-_.'' ?q)"
    using set_strip_where by (fastforce simp: strip_chars_def list_all_iff)
  moreover have "bare (\<lambda>c. c \<in> set ''-_.'') (strip_chars ''-_.'' ?q)"
    unfolding strip_chars_def by (rule strip_where_bare)
  ultimately show "filename_slug s ''run'' \<noteq> [] \<and> list_all lower_slug_char (filename_slug s ''run'')
      \<and> bare (\<lambda>c. c \<in> set ''-_.'') (filename_slug s ''run'')"
    by (auto simp: filename_slug_def Let_def bare_def lower_slug_char_def slug_char_def is_ascii_alnum_def
        lower_char_def is_upper_ascii_def is_lower_ascii_def code_def)
next
  fix s assume s: "s \<noteq> []" "list_all lower_slug_char s" "bare (\<lambda>c. c \<in> set ''-_.'') s"
  have "strip s = s" by (rule strip_slug) (use s(2) in \<open>auto simp: list_all_iff lower_slug_char_def\<close>)
  moreover have "lower s = s" using s(2) by (auto simp: lower_def list_all_iff lower_slug_char_def intro: map_idI)
  moreover have "squeeze slug_char (CHR ''-'') s = s"
    by (rule squeeze_id) (use s(2) in \<open>auto simp: list_all_iff lower_slug_char_def\<close>)
  moreover have "strip_chars ''-_.'' s = s" unfolding strip_chars_def by (rule strip_where_id[OF s(3)])
  ultimately show "filename_slug s ''run'' = s" using s(1) by (simp add: filename_slug_def)
qed

text \<open>C37: a slug is a usable file name: not empty, of lower-case letters, digits, dots, dashes and
  underscores only, not starting with a dot or a dash, and making a slug of it again changes
  nothing.\<close>

theorem slug_is_file_name:
  "let t = filename_slug s ''run'' in t \<noteq> [] \<and> list_all (\<lambda>c. slug_char c \<and> lower_char c = c) t
    \<and> CHR ''/'' \<notin> set t \<and> hd t \<noteq> CHR ''.'' \<and> hd t \<noteq> CHR ''-'' \<and> filename_slug t ''run'' = t"
  using slug.named[of s] slug.idempotent[of s] slug_char_no_slash
  by (auto simp: Let_def list_all_iff lower_slug_char_def bare_def)

end
