(* ===== verification/Scaling.thy ===== *)
theory Scaling
  imports Labels "HOL-Library.Word"
begin

text \<open>
  \<^verbatim>\<open>tools/ghalo_analyze.py\<close>, scaling: the choice of the baseline run, the table of
  ratios to it, and the axis, ticks and labels of the plots.
\<close>

unbundle bit_operations_syntax

section \<open>Baselines\<close>

record baseline_args =
  arg_baseline :: "string option"
  arg_baseline_path :: "string option"
  arg_baseline_nodes :: "int option"

definition zero_if_none :: "int option \<Rightarrow> int" where
  "zero_if_none v = (case v of None \<Rightarrow> 0 | Some n \<Rightarrow> n)"

text \<open>\<^verbatim>\<open>min(xs, key=f)\<close>: the first minimal element; the empty list raises.\<close>

definition min_by :: "('a \<Rightarrow> 'k::linorder) \<Rightarrow> 'a list \<Rightarrow> 'a res" where
  "min_by f xs = (case xs of [] \<Rightarrow> Inl ValueError
     | y # ys \<Rightarrow> Inr (max_by (\<lambda>m x. f x < f m) y ys))"

definition with_nodes :: "run list \<Rightarrow> (run \<times> int option) list res" where
  "with_nodes rs = traverse (\<lambda>r. bindR (nodes r) (\<lambda>n. Inr (r, n))) rs"

definition choose_baseline :: "fs \<Rightarrow> baseline_args \<Rightarrow> run list \<Rightarrow> run res" where
  "choose_baseline fs args rs =
     (if or_str (arg_baseline_path args) [] \<noteq> [] then load_run fs (or_str (arg_baseline_path args) [])
      else if or_str (arg_baseline args) [] \<noteq> [] \<and> arg_baseline args \<noteq> Some ''smallest-nodes''
        then load_run fs (or_str (arg_baseline args) [])
      else (case arg_baseline_nodes args of
        Some wanted \<Rightarrow> bindR (with_nodes rs) (\<lambda>rns.
          (case filter (\<lambda>(r, n). n = Some wanted) rns of
             [] \<Rightarrow> Inl (AnalysisError (''no run matched --baseline-nodes '' @ string_of_int wanted))
           | (r, _) # _ \<Rightarrow> Inr r))
      | None \<Rightarrow>
          if arg_baseline args = Some ''smallest-nodes''
          then bindR (with_nodes rs) (\<lambda>rns.
            let known = filter (\<lambda>(r, n). n \<noteq> None) rns in
            if known \<noteq> []
            then bindR (min_by (\<lambda>(r, n). (zero_if_none n, zero_if_none (ranks r))) known) (\<lambda>rn. Inr (fst rn))
            else min_by (\<lambda>r. zero_if_none (ranks r)) rs)
          else Inl (AnalysisError (''unsupported baseline '' @ json_str (opt_str (arg_baseline args))))))"

section \<open>Ratios\<close>

definition scaling_row :: "run \<Rightarrow> run \<Rightarrow> run_result \<Rightarrow> run_result \<Rightarrow> row res" where
  "scaling_row baseline r x base =
     bindR (fdiv (max_average_seconds x) (max_average_seconds base)) (\<lambda>ratio.
     bindR (nodes r) (\<lambda>nds.
     bindR (ranks_per_node r) (\<lambda>rpn.
     bindR (cartesian r) (\<lambda>cart.
     bindR (effective_bytes_per_second x) (\<lambda>bps.
     bindR (effective_gib_per_second x) (\<lambda>gib.
     bindR (label baseline) (\<lambda>lbl.
     Inr [(''system'', JStr (system r)), (''nodes'', count_cell nds), (''ranks'', count_cell (ranks r)),
          (''ranks_per_node'', count_cell rpn), (''cartesian_dimensions'', JStr cart),
          (''halo_words'', JInt (halo_words x)),
          (''time_microseconds'', JFloat (fmul (max_average_seconds x) (Fin 1000000))),
          (''ratio_relative_to_baseline'', JFloat ratio),
          (''percent_increase_relative_to_baseline'', JFloat (fmul (fsub ratio (Fin 1)) (Fin 100))),
          (''per_rank_effective_transferred_byte_rate_Bps'', JFloat bps),
          (''per_rank_effective_transferred_byte_rate_GiBps'', JFloat gib),
          (''baseline_label'', JStr lbl)])))))))"

definition scaling_rows :: "run list \<Rightarrow> run \<Rightarrow> row list res" where
  "scaling_rows rs baseline =
     bindR (sorted_runs_for_output rs) (\<lambda>ordered.
     bindR (traverse (\<lambda>r. traverse (\<lambda>x. case map_of (results_by_halo baseline) (halo_words x) of
                None \<Rightarrow> Inr []
              | Some base \<Rightarrow> bindR (scaling_row baseline r x base) (\<lambda>rw. Inr [rw])) (sorted_results r)) ordered)
       (\<lambda>rws. Inr (concat (concat rws))))"

section \<open>Axes and ticks\<close>

definition scale_of :: "run \<Rightarrow> (int option \<times> int option \<times> int option) res" where
  "scale_of r = bindR (nodes r) (\<lambda>n. bindR (ranks_per_node r) (\<lambda>k. Inr (n, ranks r, k)))"

text \<open>\<^verbatim>\<open>all(f(x) == first for x in xs)\<close>, which stops at the first difference.\<close>

fun all_equal :: "('a \<Rightarrow> 'b res) \<Rightarrow> 'b \<Rightarrow> 'a list \<Rightarrow> bool res" where
  "all_equal f v [] = Inr True"
| "all_equal f v (x # xs) = bindR (f x) (\<lambda>w. if w = v then all_equal f v xs else Inr False)"

definition same_scale_configuration :: "run list \<Rightarrow> bool res" where
  "same_scale_configuration rs = (case rs of [] \<Rightarrow> Inr False
     | r # _ \<Rightarrow> bindR (scale_of r) (\<lambda>first. all_equal scale_of first rs))"

definition constant_ranks_per_node :: "run list \<Rightarrow> int option res" where
  "constant_ranks_per_node rs = bindR (traverse ranks_per_node rs) (\<lambda>values.
     Inr (if values = [] \<or> None \<in> set values then None
          else if list_all (\<lambda>v. v = hd values) values then hd values else None))"

fun all_nodes_known :: "run list \<Rightarrow> bool res" where
  "all_nodes_known [] = Inr True"
| "all_nodes_known (r # rs) = bindR (nodes r) (\<lambda>n. if n \<noteq> None then all_nodes_known rs else Inr False)"

definition choose_scaling_x_axis :: "run list \<Rightarrow> string \<Rightarrow> string res" where
  "choose_scaling_x_axis rs requested =
     (if requested \<notin> {''auto'', ''nodes'', ''ranks''}
      then Inl (AnalysisError (''unsupported scaling x-axis '' @ requested))
      else bindR (all_nodes_known rs) (\<lambda>known.
        if requested = ''nodes'' then
          (if known then Inr ''nodes''
           else Inl (AnalysisError ''--x-axis nodes requires known node counts for every run''))
        else if requested = ''ranks'' then Inr ''ranks''
        else if known then Inr ''nodes'' else Inr ''ranks''))"

definition is_power_of_two :: "int \<Rightarrow> bool" where
  "is_power_of_two v \<longleftrightarrow> 0 < v \<and> v AND (v - 1) = 0"

definition power_of_two_ticks :: "int list \<Rightarrow> int list" where
  "power_of_two_ticks values = (let unique = sorted_list_of_set (set values) in
     if unique \<noteq> [] \<and> list_all is_power_of_two unique then unique else [])"

definition scaling_x_value :: "run \<Rightarrow> string \<Rightarrow> int res" where
  "scaling_x_value r axis =
     (if axis = ''nodes''
      then bindR (nodes r) (of_option (AnalysisError ''node count is unknown''))
      else of_option (AnalysisError ''rank count is unknown'') (ranks r))"

definition scaling_axis_label :: "run list \<Rightarrow> string \<Rightarrow> string" where
  "scaling_axis_label rs axis = (if axis = ''nodes'' then ''Node Count''
     else if list_ex (\<lambda>r. memory_location r = ''device'') rs then ''GPU Rank Count'' else ''Rank Count'')"

definition scaling_run_label :: "run \<Rightarrow> string \<Rightarrow> bool \<Rightarrow> string res" where
  "scaling_run_label r axis include_ranks =
     bindR (if axis = ''nodes'' then nodes r else Inr None) (\<lambda>nds.
     case nds of
       Some n \<Rightarrow> Inr (plural n ''node'' @ (case ranks r of
           Some k \<Rightarrow> if include_ranks then '' ('' @ plural k (rank_kind r) @ '')'' else []
         | None \<Rightarrow> []))
     | None \<Rightarrow> (case ranks r of Some k \<Rightarrow> Inr (plural k (rank_kind r)) | None \<Rightarrow> label r))"

definition any_override :: "string option list \<Rightarrow> bool" where
  "any_override overrides \<longleftrightarrow> list_ex (\<lambda>v. or_str v [] \<noteq> []) overrides"

definition plot_series_labels ::
    "string \<Rightarrow> run list \<Rightarrow> string option list \<Rightarrow> string \<Rightarrow> string list res" where
  "plot_series_labels kind rs overrides x_axis =
     (if any_override overrides then run_labels rs overrides
      else if kind = ''scaling'' then Inr []
      else bindR (if kind \<in> {''latency'', ''effective-rate''} then same_scale_configuration rs else Inr True)
        (\<lambda>same.
        if \<not> same then bindR (choose_scaling_x_axis rs x_axis)
            (\<lambda>axis. traverse (\<lambda>r. scaling_run_label r axis True) rs)
        else if 1 < length rs
          then Inr (map (\<lambda>i. ''Run '' @ string_of_int (int i)) [1..<Suc (length rs)])
        else traverse label rs))"

section \<open>What the choices promise\<close>

lemma min_by_spec:
  fixes f :: "'a \<Rightarrow> 'k::linorder"
  assumes "min_by f xs = Inr m"
  shows "m \<in> set xs \<and> (\<forall>x \<in> set xs. f m \<le> f x)"
proof (cases xs)
  case (Cons y ys)
  then have m: "m = max_by (\<lambda>m x. f x < f m) y ys" using assms by (simp add: min_by_def)
  have "\<forall>x \<in> set (y # ys). \<not> f x < f m"
    unfolding m by (rule max_by_bound) auto
  then show ?thesis using max_by_mem[of "\<lambda>m x. f x < f m" y ys] by (auto simp: Cons m not_less)
qed (use assms in \<open>simp add: min_by_def\<close>)

lemma with_nodes_mem:
  assumes "with_nodes rs = Inr rns"
  shows "(r, n) \<in> set rns \<longleftrightarrow> r \<in> set rs \<and> nodes r = Inr n"
proof -
  have a: "list_all2 (\<lambda>r rn. bindR (nodes r) (\<lambda>n. Inr (r, n)) = Inr rn) rs rns"
    using assms by (simp add: with_nodes_def traverse_Inr_iff)
  show ?thesis using list_all2_in1[OF a, of r] list_all2_in2[OF a, of "(r, n)"]
    by (auto simp: bindR_eq_Inr_iff)
qed

text \<open>C30: the default baseline is one of the runs; among runs with a known node count it has the
  fewest nodes, and among those the fewest ranks; without any node count it has the fewest
  ranks.\<close>

theorem smallest_baseline:
  assumes "choose_baseline fs \<lparr>arg_baseline = Some ''smallest-nodes'', arg_baseline_path = None,
    arg_baseline_nodes = None\<rparr> rs = Inr b"
  shows "b \<in> set rs
    \<and> (\<forall>r \<in> set rs. \<forall>n. nodes r = Inr (Some n) \<longrightarrow>
         (\<exists>m. nodes b = Inr (Some m) \<and> (m, zero_if_none (ranks b)) \<le> (n, zero_if_none (ranks r))))
    \<and> ((\<forall>r \<in> set rs. nodes r = Inr None) \<longrightarrow> (\<forall>r \<in> set rs. zero_if_none (ranks b) \<le> zero_if_none (ranks r)))"
proof -
  obtain rns where rns: "with_nodes rs = Inr rns"
    and b: "(let known = filter (\<lambda>(r, n). n \<noteq> None) rns in
        if known \<noteq> []
        then bindR (min_by (\<lambda>(r, n). (zero_if_none n, zero_if_none (ranks r))) known) (\<lambda>rn. Inr (fst rn))
        else min_by (\<lambda>r. zero_if_none (ranks r)) rs) = Inr b"
    using assms by (auto simp: choose_baseline_def or_str_def bindR_eq_Inr_iff)
  note mem = with_nodes_mem[OF rns]
  show ?thesis
  proof (cases "filter (\<lambda>(r, n). n \<noteq> None) rns = []")
    case True
    then have none: "n = None" if "r \<in> set rs" "nodes r = Inr n" for r n
      using that mem by (fastforce simp: filter_empty_conv)
    have "min_by (\<lambda>r. zero_if_none (ranks r)) rs = Inr b" using b True by (simp add: Let_def)
    from min_by_spec[OF this] none show ?thesis by blast
  next
    case False
    let ?f = "\<lambda>(r, n). (zero_if_none n, zero_if_none (ranks r))"
    obtain n where min: "min_by ?f (filter (\<lambda>(r, n). n \<noteq> None) rns) = Inr (b, n)"
      using b False by (auto simp: Let_def bindR_eq_Inr_iff)
    note spec = min_by_spec[OF min]
    from spec obtain m where m: "n = Some m" "b \<in> set rs" "nodes b = Inr (Some m)"
      using mem by (cases n) auto
    have "(m, zero_if_none (ranks b)) \<le> (k, zero_if_none (ranks r))"
      if "r \<in> set rs" "nodes r = Inr (Some k)" for r k
    proof -
      have "(r, Some k) \<in> set (filter (\<lambda>(r, n). n \<noteq> None) rns)" using that mem by simp
      with spec have "?f (b, n) \<le> ?f (r, Some k)" by blast
      then show ?thesis by (simp add: m(1) zero_if_none_def)
    qed
    then show ?thesis using m by auto
  qed
qed

theorem smallest_baseline_witness:
  "choose_baseline sample_fs \<lparr>arg_baseline = Some ''smallest-nodes'', arg_baseline_path = None,
    arg_baseline_nodes = None\<rparr> [sample_b, sample_a] = Inr sample_b \<and> sample_b \<in> set [sample_b, sample_a]"
proof
  show c: "choose_baseline sample_fs \<lparr>arg_baseline = Some ''smallest-nodes'', arg_baseline_path = None,
    arg_baseline_nodes = None\<rparr> [sample_b, sample_a] = Inr sample_b" by code_simp
  show "sample_b \<in> set [sample_b, sample_a]" using smallest_baseline[OF c] by blast
qed

lemma power_two_bits:
  "0 < v \<Longrightarrow> v AND (v - 1) = 0 \<longleftrightarrow> (\<exists>k. v = 2 ^ k)" for v :: int
proof (induction "nat v" arbitrary: v rule: less_induct)
  case less
  show ?case
  proof (cases "even v")
    case True
    then obtain w where w: "v = 2 * w" by blast
    have "v AND (v - 1) = 2 * (w AND (w - 1))"
    proof -
      have "(v - 1) div 2 = w - 1" using w by presburger
      then show ?thesis using w by (subst and_int_rec) simp
    qed
    moreover have "w AND (w - 1) = 0 \<longleftrightarrow> (\<exists>k. w = 2 ^ k)" by (rule less.hyps) (use less.prems w in auto)
    moreover have "(\<exists>k. v = 2 ^ k) \<longleftrightarrow> (\<exists>k. w = 2 ^ k)"
    proof
      assume "\<exists>k. v = 2 ^ k"
      then obtain k where k: "v = 2 ^ k" by blast
      then have "k \<noteq> 0" using True by (intro notI) simp
      then obtain j where "k = Suc j" by (cases k) auto
      then show "\<exists>k. w = 2 ^ k" using k w by auto
    qed (use w in \<open>auto intro: exI[of _ "Suc _"]\<close>)
    ultimately show ?thesis by simp
  next
    case False
    then obtain w where w: "v = 2 * w + 1" by (elim oddE)
    have "v AND (v - 1) = 2 * w"
    proof -
      have "v div 2 = w" "(v - 1) div 2 = w" using w by auto
      then show ?thesis using w by (subst and_int_rec) simp
    qed
    moreover have "(\<exists>k. v = 2 ^ k) \<longleftrightarrow> w = 0"
    proof
      assume "\<exists>k. v = 2 ^ k"
      then obtain k where "v = 2 ^ k" by blast
      then show "w = 0" using False w by (cases k) auto
    qed (use w in \<open>auto intro: exI[of _ 0]\<close>)
    ultimately show ?thesis by simp
  qed
qed

text \<open>C33: tick marks are placed exactly when every count on the axis is a power of two; they are
  then the counts, each once and in increasing order.\<close>

theorem power_of_two_ticks_spec:
  "power_of_two_ticks values =
     (if values \<noteq> [] \<and> list_all (\<lambda>v. \<exists>k. v = 2 ^ k) values then sorted_list_of_set (set values) else [])"
proof -
  have "is_power_of_two v \<longleftrightarrow> (\<exists>k. v = 2 ^ k)" for v
  proof (cases "0 < v")
    case False
    then have "\<nexists>k. v = 2 ^ k" by (auto simp: not_less dest: order_trans[of "2 ^ _"])
    then show ?thesis using False by (simp add: is_power_of_two_def)
  qed (simp add: is_power_of_two_def power_two_bits)
  then show ?thesis by (simp add: power_of_two_ticks_def Let_def list_all_iff)
qed

end
