(* ===== verification/Plotting.thy ===== *)
theory Plotting
  imports Scaling
begin

text \<open>
  \<^verbatim>\<open>tools/ghalo_analyze.py\<close>, plots: what \<^verbatim>\<open>command_plot\<close> asks the
  plotting library to draw, as the list of its calls, and the file it saves.  The library, the
  clock, the version-control program and the other surroundings of the process are parameters,
  collected in the record \<open>env\<close>.
\<close>

datatype draw =
    Grid string | RcPublication
  | Line "json list" "pyfloat list" string | HLine pyfloat
  | Bar "string list" "pyfloat list" "pyfloat list" string
  | XLabel string | YLabel string | XTicks "int list"
  | AxisLinear string | AxisLog string int
  | Title string | LegendInside | LegendOutside

record env =
  env_writable :: "path \<Rightarrow> bool"
  env_matplotlib :: "string option"
  env_savefig :: "draw list \<Rightarrow> string \<Rightarrow> int option \<Rightarrow> string"
  env_sha256 :: "string \<Rightarrow> string"
  env_argv :: "string list"
  env_github_sha :: "string option"
  env_git_head :: "(int \<times> string) option"
  env_now :: string
  env_python :: string

record plot_args =
  p_kind :: string
  p_xscale :: string
  p_yscale :: string
  p_x_axis :: string
  p_style :: string
  p_format :: "string option"
  p_legend :: string
  p_title :: "string option"
  p_label :: "string list"
  p_labels :: "string option"
  p_output :: "string option"
  p_dpi :: "int option"
  p_baseline :: baseline_args
  p_inputs :: "string list"

section \<open>Parts of a figure\<close>

definition percent_difference_rows_for_plot :: "run list \<Rightarrow> row list res" where
  "percent_difference_rows_for_plot rs = (case rs of
     [a, b] \<Rightarrow> bindR (compare_rows a b False) (\<lambda>table.
       if list_all (\<lambda>rw. map_of rw ''bytes_per_rank_A'' = map_of rw ''bytes_per_rank_B'') table
       then Inr table
       else Inl (AnalysisError ''percent-difference plot requires matching bytes per rank for each halo size''))
   | _ \<Rightarrow> Inl (AnalysisError ''percent-difference plot requires exactly two input runs''))"

text \<open>The separator of the details of a title is an em dash, here in its three UTF-8 bytes.\<close>

definition title_dash :: string where
  "title_dash = [CHR '' '', CHR 0xE2, CHR 0x80, CHR 0x94, CHR '' '']"

definition title_rank_kind :: "run \<Rightarrow> string" where
  "title_rank_kind r = (if memory_location r = ''device'' then ''GPU Rank'' else ''Rank'')"

definition title_headline :: "string \<Rightarrow> bool \<Rightarrow> run list \<Rightarrow> string" where
  "title_headline kind scaling rs =
     ''gHALO '' @ display_backend (run_backend (hd rs)) @
     (if kind = ''percent-difference'' then '' Repeatability Difference''
      else if kind = ''effective-rate'' then '' Effective Transferred-Byte Rate''
      else if scaling then '' Scaling'' else if 1 < length rs then '' Repeatability'' else [])"

definition default_plot_title :: "string \<Rightarrow> run list \<Rightarrow> string res" where
  "default_plot_title kind rs =
     bindR (if kind \<in> {''scaling'', ''effective-rate''} then Inr True
            else if kind = ''latency'' \<and> 1 < length rs
              then bindR (same_scale_configuration rs) (\<lambda>same. Inr (\<not> same))
            else Inr False) (\<lambda>scaling.
     bindR (nodes (hd rs)) (\<lambda>nds.
     bindR (constant_ranks_per_node rs) (\<lambda>rpn.
     let headline = title_headline kind scaling rs;
         details = text_part (display_system (system (hd rs)))
           @ (case rpn of
                Some k \<Rightarrow> if scaling then [plural k (title_rank_kind (hd rs)) @ '' per Node'']
                          else count_part nds ''Node''
              | None \<Rightarrow> count_part nds ''Node'')
           @ (if scaling then [] else count_part (ranks (hd rs)) (title_rank_kind (hd rs)))
     in Inr (if details = [] then headline else headline @ [LF] @ join title_dash details))))"

definition halo_ticks :: "run list \<Rightarrow> draw list" where
  "halo_ticks rs = (let halos = sorted_list_of_set (set (map halo_words (concat (map results rs))))
     in if halos = [] then [] else [XTicks halos])"

definition percent_difference_plot :: "row list \<Rightarrow> draw list" where
  "percent_difference_plot table =
     [Line (map (\<lambda>rw. opt_json (map_of rw ''halo_words'')) table) (map percent_of table)
        ''Observed percent difference'',
      HLine (Fin 0), XLabel ''Halo Length (elements)'', YLabel ''Observed Difference (%)'']"

definition plot_style :: "string \<Rightarrow> draw list res" where
  "plot_style style = (if style = ''default'' then Inr [Grid ''both'']
     else if style \<noteq> ''publication'' then Inl (AnalysisError (''unsupported plot style '' @ style))
     else Inr [RcPublication, Grid ''major''])"

definition place_legend :: "string \<Rightarrow> string \<Rightarrow> nat \<Rightarrow> draw res" where
  "place_legend position style series_count =
     (if position = ''inside'' then Inr LegendInside
      else if position = ''outside'' \<or> position = ''auto'' \<and> style = ''publication'' \<and> 4 < series_count
        then Inr LegendOutside
      else if position = ''auto'' then Inr LegendInside
      else Inl (AnalysisError (''unsupported legend position '' @ position)))"

definition output_format_for :: "string \<Rightarrow> string option \<Rightarrow> string" where
  "output_format_for p requested =
     (if or_str requested [] \<noteq> [] then or_str requested []
      else (let ext = dropWhile (\<lambda>c. c = CHR ''.'') (lower (path_suffix (Path p)))
            in if ext \<in> {''png'', ''pdf'', ''svg''} then ext else ''png''))"

definition output_dpi :: "string \<Rightarrow> string \<Rightarrow> int option \<Rightarrow> int option" where
  "output_dpi style output_format dpi =
     (if output_format \<in> {''pdf'', ''svg''} then None
      else (case dpi of Some d \<Rightarrow> Some d | None \<Rightarrow> Some (if style = ''publication'' then 600 else 120)))"

definition apply_axis_scale :: "string \<Rightarrow> string \<Rightarrow> draw res" where
  "apply_axis_scale axis scale =
     (if scale = ''linear'' then Inr (AxisLinear axis) else if scale = ''log2'' then Inr (AxisLog axis 2)
      else if scale = ''log10'' then Inr (AxisLog axis 10)
      else Inl (AnalysisError (''unsupported '' @ axis @ ''-axis scale '' @ scale)))"

section \<open>The kinds of plot\<close>

definition micros :: "run_result \<Rightarrow> pyfloat" where
  "micros x = fmul (max_average_seconds x) (Fin 1000000)"

definition by_size :: "run \<Rightarrow> run_result list" where
  "by_size r = sort_key halo_words (results r)"

definition time_label :: string where
  "time_label = ''Maximum Average Exchange Time ('' @ [CHR 0xB5] @ ''s)''"

definition draw_latency :: "run list \<Rightarrow> string list \<Rightarrow> draw list" where
  "draw_latency rs labels =
     concat (map (\<lambda>(r, l). [YLabel time_label,
         Line (map (\<lambda>x. JInt (halo_words x)) (by_size r)) (map micros (by_size r)) l]) (zip rs labels))
     @ XLabel ''Halo Length (elements)'' # halo_ticks rs"

definition draw_rates :: "run list \<Rightarrow> string list \<Rightarrow> draw list res" where
  "draw_rates rs labels =
     bindR (traverse (\<lambda>(r, l). bindR (traverse effective_gib_per_second (by_size r)) (\<lambda>ys.
         Inr [YLabel ''Per-rank Effective Transferred-Byte Rate (GiB/s)'',
              Line (map (\<lambda>x. JInt (halo_words x)) (by_size r)) ys l])) (zip rs labels)) (\<lambda>lines.
     Inr (concat lines @ XLabel ''Halo Length (elements)'' # halo_ticks rs))"

definition float_cell :: "row \<Rightarrow> string \<Rightarrow> pyfloat" where
  "float_cell rw k = (case map_of rw k of Some (JFloat x) \<Rightarrow> x | _ \<Rightarrow> Fin 0)"

definition row_halos :: "row list \<Rightarrow> int list" where
  "row_halos table = sorted_list_of_set (set (List.map_filter
     (\<lambda>rw. case map_of rw ''halo_words'' of Some (JInt n) \<Rightarrow> Some n | _ \<Rightarrow> None) table))"

definition draw_scaling :: "fs \<Rightarrow> baseline_args \<Rightarrow> run list \<Rightarrow> string \<Rightarrow> draw list res" where
  "draw_scaling fs args rs axis =
     bindR (choose_baseline fs args rs) (\<lambda>baseline.
     bindR (scaling_rows rs baseline) (\<lambda>table.
     let column = (if axis = ''nodes'' then ''nodes'' else ''ranks'');
         series = (\<lambda>halo. filter (\<lambda>rw. map_of rw ''halo_words'' = Some (JInt halo)) table);
         lines = map (\<lambda>halo. Line (map (\<lambda>rw. cell rw column) (series halo))
                   (map (\<lambda>rw. float_cell rw ''time_microseconds'') (series halo))
                   (''N='' @ string_of_int halo)) (row_halos table)
     in bindR (traverse (\<lambda>rw. json_int (cell rw column)) table) (\<lambda>counts.
        let ticks = power_of_two_ticks counts
        in Inr (lines @ (if ticks = [] then [] else [XTicks ticks])
             @ [XLabel (scaling_axis_label rs axis), YLabel time_label]))))"

definition MPI_HIP_PHASE_PLOT_FIELDS :: "string list" where
  "MPI_HIP_PHASE_PLOT_FIELDS = [''input_device_copy_seconds'', ''north_south_mpi_seconds'',
     ''north_south_sync_seconds'', ''transpose_device_copy_seconds'', ''transpose_copy_sync_seconds'',
     ''east_west_mpi_seconds'', ''east_west_sync_seconds'']"

definition GENERIC_PHASE_PLOT_FIELDS :: "string list" where
  "GENERIC_PHASE_PLOT_FIELDS = [''north_south_communication_seconds'', ''north_south_sync_seconds'',
     ''transpose_copy_seconds'', ''transpose_sync_seconds'', ''east_west_communication_seconds'',
     ''east_west_sync_seconds'']"

definition STREAM_ORDERED_PHASE_PLOT_FIELDS :: "string list" where
  "STREAM_ORDERED_PHASE_PLOT_FIELDS = [''north_south_communication_enqueue_seconds'',
     ''transpose_copy_enqueue_seconds'', ''east_west_communication_enqueue_seconds'',
     ''final_stream_sync_seconds'']"

definition the_phase :: "run_result \<Rightarrow> (string \<times> pyfloat) list" where
  "the_phase x = (case phase_timing x of None \<Rightarrow> [] | Some p \<Rightarrow> p)"

definition any_nonzero :: "(string \<times> pyfloat) list \<Rightarrow> string list \<Rightarrow> bool" where
  "any_nonzero phase names \<longleftrightarrow> list_ex (\<lambda>n. flt (Fin 0) (fabs (phase_get phase n))) names"

definition phase_plot_fields :: "run_result \<Rightarrow> string list" where
  "phase_plot_fields x =
     (if any_nonzero (the_phase x) STREAM_ORDERED_PHASE_PLOT_FIELDS then STREAM_ORDERED_PHASE_PLOT_FIELDS
      else if sublist ''rccl'' (lower (res_backend x)) \<or> sublist ''rccl'' (lower (res_algorithm x))
           \<or> any_nonzero (the_phase x) GENERIC_PHASE_PLOT_FIELDS then GENERIC_PHASE_PLOT_FIELDS
      else MPI_HIP_PHASE_PLOT_FIELDS)"

text \<open>The stacked bars: each starts where the sum of the earlier ones ends.\<close>

fun stack_bars :: "run_result list \<Rightarrow> pyfloat list \<Rightarrow> string list \<Rightarrow> draw list" where
  "stack_bars xs bottoms [] = []"
| "stack_bars xs bottoms (name # names) =
     (let values = map (\<lambda>x. fmul (phase_get (the_phase x) name) (Fin 1000000)) xs
      in Bar (map (\<lambda>x. string_of_int (halo_words x)) xs) values bottoms name
         # stack_bars xs (map2 fadd bottoms values) names)"

definition draw_phase :: "run list \<Rightarrow> draw list res" where
  "draw_phase rs = (let xs = filter has_phase_timing (results (hd rs)) in
     if xs = [] then Inl (AnalysisError ''phase plot requires a run with phase_timing results'')
     else Inr (stack_bars xs (map (\<lambda>_. Fin 0) xs) (phase_plot_fields (hd xs))
       @ [XLabel ''halo length N'', YLabel ''independently reduced phase maxima (microseconds)'']))"

definition draw_kind ::
    "fs \<Rightarrow> plot_args \<Rightarrow> run list \<Rightarrow> string \<Rightarrow> string list \<Rightarrow> row list \<Rightarrow> draw list res" where
  "draw_kind fs args rs axis labels table =
     (if p_kind args = ''latency'' then Inr (draw_latency rs labels)
      else if p_kind args = ''effective-rate'' then draw_rates rs labels
      else if p_kind args = ''scaling'' then draw_scaling fs (p_baseline args) rs axis
      else if p_kind args = ''percent-difference'' then Inr (percent_difference_plot table @ halo_ticks rs)
      else if p_kind args = ''phase'' then draw_phase rs
      else Inl (AnalysisError (''unsupported plot kind '' @ p_kind args)))"

section \<open>The command\<close>

text \<open>The figure, its file name, format and resolution.\<close>

definition plot_figure :: "env \<Rightarrow> fs \<Rightarrow> plot_args \<Rightarrow> draw list res" where
  "plot_figure e fs args =
     bindR (load_runs fs (p_inputs args)) (\<lambda>loaded.
     bindR (if p_kind args \<noteq> ''percent-difference'' then sorted_runs_for_output loaded else Inr loaded) (\<lambda>rs.
     bindR (label_overrides (p_label args) (p_labels args) (length rs)) (\<lambda>overrides.
     bindR (choose_scaling_x_axis rs (p_x_axis args)) (\<lambda>axis.
     bindR (plot_series_labels (p_kind args) rs overrides axis) (\<lambda>labels.
     bindR (if p_kind args = ''percent-difference'' then percent_difference_rows_for_plot rs else Inr []) (\<lambda>table.
     if env_matplotlib e = None
     then Inl (AnalysisError (''plot output requires matplotlib; install matplotlib or use ''
        @ ''summarize/compare/aggregate/scaling formats''))
     else
     bindR (plot_style (p_style args)) (\<lambda>style.
     bindR (draw_kind fs args rs axis labels table) (\<lambda>body.
     bindR (apply_axis_scale ''x'' (if p_kind args = ''phase'' \<and> p_xscale args = ''log2'' then ''linear''
                                    else p_xscale args)) (\<lambda>xs.
     bindR (apply_axis_scale ''y'' (p_yscale args)) (\<lambda>ys.
     bindR (if or_str (p_title args) [] \<noteq> [] then Inr (or_str (p_title args) [])
            else default_plot_title (p_kind args) rs) (\<lambda>title.
     bindR (place_legend (p_legend args) (p_style args) (length rs)) (\<lambda>legend.
     Inr (style @ body @ [xs, ys, Title title, legend])))))))))))))"

definition command_plot :: "env \<Rightarrow> plot_args \<Rightarrow> io \<Rightarrow> io res" where
  "command_plot e args s =
     bindR (plot_figure e (io_files s) args) (\<lambda>figure.
     let output = or_str (p_output args) (p_kind args @ ''.png'');
         fmt = output_format_for output (p_format args)
     in bindR (ensure_output_parent (env_writable e) (io_files s) (Path output)) (\<lambda>fs.
        bindR (fs_write fs (Path output)
             (env_savefig e figure fmt (output_dpi (p_style args) fmt (p_dpi args)))) (\<lambda>fs'.
        Inr (s\<lparr>io_files := fs'\<rparr>))))"

end
