(* ===== verification/PyStats.thy ===== *)
theory PyStats
  imports Binary64
begin

text \<open>
  The functions of Python's \<^verbatim>\<open>statistics\<close> module that the tools call, on binary64
  values: \<^verbatim>\<open>median\<close>, \<^verbatim>\<open>fmean\<close>, \<^verbatim>\<open>pstdev\<close> and
  \<^verbatim>\<open>stdev\<close>.  The last two compute the variance exactly and round its square root
  once, with the library's round-to-odd integer square root.
\<close>

section \<open>Sorting and the median\<close>

definition median :: "pyfloat list \<Rightarrow> pyfloat res" where
  "median xs = (let d = sort xs; n = length d in
     if n = 0 then Inl StatisticsError
     else if odd n then Inr (d ! (n div 2))
     else fdiv (fadd (d ! (n div 2 - 1)) (d ! (n div 2))) (Fin 2))"

text \<open>A float whose double does not overflow.\<close>

fun moderate :: "pyfloat \<Rightarrow> bool" where
  "moderate (Fin x) = (float64 x \<and> \<bar>x\<bar> < 2 ^ 1023)"
| "moderate _ = False"

lemma moderate_wf: "moderate a \<Longrightarrow> wf_float a"
proof (cases a)
  case (Fin x)
  moreover have "(2::rat) ^ 1023 \<le> 2 ^ 1024" by (rule power_increasing) simp_all
  moreover assume "moderate a"
  ultimately show ?thesis by (auto simp del: power_numeral elim: less_le_trans)
qed auto

lemma moderate_not_NaN: "moderate a \<Longrightarrow> a \<noteq> NaN"
  by auto

lemma float64_double: "float64 x \<Longrightarrow> float64 (2 * x)"
proof -
  assume "float64 x"
  then obtain m e where "x = of_int m * 2 powi e" "\<bar>m\<bar> \<le> 2 ^ 53" "- 1074 \<le> e"
    by (auto simp: float64_def)
  then show ?thesis unfolding float64_def
    by (intro exI[of _ m] exI[of _ "e + 1"]) (simp add: power_int_add)
qed

lemma moderate_double: "moderate (Fin x) \<Longrightarrow> wf_float (Fin (2 * x))"
  using power_Suc[of "2::rat" 1023] by (auto simp: float64_double abs_mult simp del: power_numeral)

lemma midpoint_between:
  assumes "moderate (Fin x)" "moderate (Fin y)" "x \<le> y"
  shows "\<exists>z. fdiv (fadd (Fin x) (Fin y)) (Fin 2) = Inr (Fin z) \<and> x \<le> z \<and> z \<le> y"
proof -
  have s: "to_float (x + y) = Fin (rnd64 (x + y)) \<and> 2 * x \<le> rnd64 (x + y) \<and> rnd64 (x + y) \<le> 2 * y"
    by (rule to_float_between[OF moderate_double moderate_double]) (use assms in auto)
  have "to_float (rnd64 (x + y) / 2) = Fin (rnd64 (rnd64 (x + y) / 2))
        \<and> x \<le> rnd64 (rnd64 (x + y) / 2) \<and> rnd64 (rnd64 (x + y) / 2) \<le> y"
    by (rule to_float_between[OF moderate_wf moderate_wf]) (use assms s in auto)
  with s show ?thesis by (simp add: fdiv_def)
qed

lemma sort_eq_Nil_iff [simp]: "sort xs = [] \<longleftrightarrow> xs = []"
  by (metis set_empty set_sort)

lemma sort_nth_bounds:
  assumes "i < length xs" "\<And>x. x \<in> set xs \<Longrightarrow> lo \<le> x" "\<And>x. x \<in> set xs \<Longrightarrow> x \<le> hi"
  shows "lo \<le> sort xs ! i \<and> sort xs ! i \<le> hi"
  using assms nth_mem[of i "sort xs"] by simp

lemma median_between:
  assumes "xs \<noteq> []" "\<And>x. x \<in> set xs \<Longrightarrow> moderate x"
    and "\<And>x. x \<in> set xs \<Longrightarrow> lo \<le> x" "\<And>x. x \<in> set xs \<Longrightarrow> x \<le> hi"
  shows "\<exists>m. median xs = Inr m \<and> lo \<le> m \<and> m \<le> hi"
proof (cases "odd (length xs)")
  case True
  then have "length xs div 2 < length xs" using assms(1) by (cases xs) auto
  then have "lo \<le> sort xs ! (length xs div 2) \<and> sort xs ! (length xs div 2) \<le> hi"
    by (rule sort_nth_bounds[OF _ assms(3,4)])
  moreover have "median xs = Inr (sort xs ! (length xs div 2))"
    using True assms(1) by (simp add: median_def Let_def)
  ultimately show ?thesis by blast
next
  case False
  let ?n = "length xs div 2"
  have n: "?n - 1 < length xs" "?n < length xs" using False assms(1) by (simp_all add: length_greater_0_conv[symmetric] del: length_greater_0_conv)
  have mem: "sort xs ! (?n - 1) \<in> set xs" "sort xs ! ?n \<in> set xs"
    using nth_mem[of "?n - 1" "sort xs"] nth_mem[of ?n "sort xs"] n by simp_all
  obtain x y where xy: "sort xs ! (?n - 1) = Fin x" "sort xs ! ?n = Fin y"
    using assms(2)[OF mem(1)] assms(2)[OF mem(2)]
    by (metis moderate.elims(2))
  have "sort xs ! (?n - 1) \<le> sort xs ! ?n" by (rule sorted_nth_mono) (use n in auto)
  then obtain z where z: "fdiv (fadd (Fin x) (Fin y)) (Fin 2) = Inr (Fin z)" "x \<le> z" "z \<le> y"
    using midpoint_between[of x y] assms(2)[OF mem(1)] assms(2)[OF mem(2)] xy by auto
  have "lo \<le> Fin x" "Fin y \<le> hi"
    using assms(3)[OF mem(1)] assms(4)[OF mem(2)] xy by auto
  then have "lo \<le> Fin z" "Fin z \<le> hi" using z by (meson Fin_le_iff order_trans)+
  then show ?thesis using False assms(1) z xy by (simp add: median_def Let_def)
qed

section \<open>Means\<close>

text \<open>The rational values of a list of finite floats.\<close>

fun fin_vals :: "pyfloat list \<Rightarrow> rat list option" where
  "fin_vals [] = Some []"
| "fin_vals (Fin q # xs) = map_option ((#) q) (fin_vals xs)"
| "fin_vals (_ # xs) = None"

fun is_fin :: "pyfloat \<Rightarrow> bool" where
  "is_fin (Fin _) = True" | "is_fin _ = False"

text \<open>
  \<^verbatim>\<open>math.fsum\<close>: the exactly rounded sum of finite values; it raises when a partial
  sum overflows, and on infinities of both signs.
\<close>

definition fsum :: "pyfloat list \<Rightarrow> pyfloat res" where
  "fsum xs = (case fin_vals xs of
     Some qs \<Rightarrow> if list_all (\<lambda>n. is_fin (to_float (sum_list (take n qs)))) [0..<Suc (length qs)]
                then Inr (to_float (sum_list qs)) else Inl OverflowError
   | None \<Rightarrow> if NaN \<in> set xs then Inr NaN
             else if PInf \<in> set xs \<and> NInf \<in> set xs then Inl ValueError
             else Inr (if PInf \<in> set xs then PInf else NInf))"

definition fmean :: "pyfloat list \<Rightarrow> pyfloat res" where
  "fmean xs = bindR (fsum xs) (\<lambda>s. if xs = [] then Inl StatisticsError
     else bindR (int_to_float (int (length xs))) (fdiv s))"

section \<open>Standard deviations\<close>

text \<open>The integer square root.\<close>

fun isqrt :: "int \<Rightarrow> int" where
  "isqrt n = (if n < 1 then 0
     else (let r = 2 * isqrt (n div 4) in if (r + 1) * (r + 1) \<le> n then r + 1 else r))"

declare isqrt.simps [simp del]

lemma isqrt_spec: "0 \<le> n \<Longrightarrow> 0 \<le> isqrt n \<and> isqrt n * isqrt n \<le> n \<and> n < (isqrt n + 1) * (isqrt n + 1)"
proof (induction n rule: isqrt.induct)
  case (1 n)
  show ?case
  proof (cases "n < 1")
    case True
    then show ?thesis using 1 by (simp add: isqrt.simps[of n])
  next
    case False
    define s where "s = isqrt (n div 4)"
    have ih: "0 \<le> s" "s * s \<le> n div 4" "n div 4 < (s + 1) * (s + 1)"
      using 1 False by (simp_all add: s_def)
    then have b: "2 * s * (2 * s) \<le> n" "n < (2 * s + 2) * (2 * s + 2)"
      by (simp_all add: algebra_simps)
    then show ?thesis using ih False
      by (simp add: isqrt.simps[of n] Let_def flip: s_def) (simp add: algebra_simps)
  qed
qed

text \<open>\<^verbatim>\<open>_integer_sqrt_of_frac_rto\<close>: the integer root with a sticky last bit.\<close>

definition sqrt_rto :: "int \<Rightarrow> int \<Rightarrow> int" where
  "sqrt_rto n m = (let a = isqrt (n div m) in if a * a * m \<noteq> n \<and> even a then a + 1 else a)"

definition float_sqrt_of_frac :: "rat \<Rightarrow> pyfloat res" where
  "float_sqrt_of_frac x =
     (let (n, m) = quotient_of x;
          q = (int (bit_len n) - int (bit_len m) - 109) div 2;
          v = (if 0 \<le> q then of_int (sqrt_rto n (m * 2 ^ nat (2 * q)) * 2 ^ nat q)
               else of_int (sqrt_rto (n * 2 ^ nat (- 2 * q)) m) / 2 ^ nat (- q))
      in case to_float v of Fin r \<Rightarrow> Inr (Fin r) | _ \<Rightarrow> Inl OverflowError)"

text \<open>The exact sum of squared deviations from the mean.\<close>

definition sum_sq_dev :: "rat list \<Rightarrow> rat" where
  "sum_sq_dev qs = (let n = of_nat (length qs); sx = sum_list qs; sxx = (\<Sum>q\<leftarrow>qs. q * q)
                    in (n * sxx - sx * sx) / n)"

text \<open>With an infinity or a NaN in the data the library fails on the missing attribute
  \<^verbatim>\<open>numerator\<close> of a float.\<close>

definition stdev_over :: "nat \<Rightarrow> pyfloat list \<Rightarrow> pyfloat res" where
  "stdev_over d xs = (case fin_vals xs of
     None \<Rightarrow> Inl AttributeError
   | Some qs \<Rightarrow> float_sqrt_of_frac (sum_sq_dev qs / of_nat d))"

definition pstdev :: "pyfloat list \<Rightarrow> pyfloat res" where
  "pstdev xs = (if xs = [] then Inl StatisticsError else stdev_over (length xs) xs)"

definition stdev :: "pyfloat list \<Rightarrow> pyfloat res" where
  "stdev xs = (if length xs < 2 then Inl StatisticsError else stdev_over (length xs - 1) xs)"

lemma fin_vals_None_iff: "fin_vals xs = None \<longleftrightarrow> (\<exists>x \<in> set xs. \<not> is_fin x)"
  by (induction xs rule: fin_vals.induct) auto

lemma fin_vals_Some: "fin_vals xs = Some qs \<Longrightarrow> xs = map Fin qs"
  by (induction xs arbitrary: qs rule: fin_vals.induct) auto

lemma fin_vals_map [simp]: "fin_vals (map Fin qs) = Some qs"
  by (induction qs) auto

section \<open>Extremes and sums\<close>

text \<open>\<^verbatim>\<open>min\<close> and \<^verbatim>\<open>max\<close> of a list that is not empty, and the
  left-to-right sum.\<close>

definition py_min :: "pyfloat list \<Rightarrow> pyfloat" where
  "py_min xs = max_by (\<lambda>m x. flt x m) (hd xs) (tl xs)"

definition py_max :: "pyfloat list \<Rightarrow> pyfloat" where
  "py_max xs = max_by flt (hd xs) (tl xs)"

lemma py_min_le:
  assumes "xs \<noteq> []" "NaN \<notin> set xs"
  shows "py_min xs \<in> set xs \<and> (\<forall>x \<in> set xs. py_min xs \<le> x)"
proof -
  have m: "py_min xs \<in> set xs" unfolding py_min_def using max_by_mem[of _ "hd xs" "tl xs"] assms(1) by (cases xs) auto
  have eq: "max_by (\<lambda>m x. flt x m) (hd xs) (tl xs) = max_by (\<lambda>m x. x < m) (hd xs) (tl xs)"
  proof (rule max_by_cong)
    fix a b assume "a \<in> set (hd xs # tl xs)" "b \<in> set (hd xs # tl xs)"
    then have "a \<noteq> NaN" "b \<noteq> NaN" using assms by (metis hd_Cons_tl)+
    then show "flt b a = (b < a)" by (simp add: flt_iff_less)
  qed
  have "\<forall>x \<in> set (hd xs # tl xs). \<not> x < max_by (\<lambda>m x. x < m) (hd xs) (tl xs)"
    by (rule max_by_bound) auto
  then show ?thesis using m assms(1) eq by (auto simp: py_min_def not_less)
qed

lemma py_max_ge:
  assumes "xs \<noteq> []" "NaN \<notin> set xs"
  shows "py_max xs \<in> set xs \<and> (\<forall>x \<in> set xs. x \<le> py_max xs)"
proof -
  have m: "py_max xs \<in> set xs" unfolding py_max_def using max_by_mem[of _ "hd xs" "tl xs"] assms(1) by (cases xs) auto
  have eq: "max_by flt (hd xs) (tl xs) = max_by (<) (hd xs) (tl xs)"
  proof (rule max_by_cong)
    fix a b assume "a \<in> set (hd xs # tl xs)" "b \<in> set (hd xs # tl xs)"
    then have "a \<noteq> NaN" "b \<noteq> NaN" using assms by (metis hd_Cons_tl)+
    then show "flt a b = (a < b)" by (simp add: flt_iff_less)
  qed
  have "\<forall>x \<in> set (hd xs # tl xs). \<not> max_by (<) (hd xs) (tl xs) < x"
    by (rule max_by_bound) auto
  then show ?thesis using m assms(1) eq by (auto simp: py_max_def not_less)
qed

text \<open>The median lies between the two middle elements.\<close>

lemma median_middle:
  assumes "xs \<noteq> []" "\<forall>x \<in> set xs. moderate x"
  shows "\<exists>m. median xs = Inr m \<and> sort xs ! ((length xs - 1) div 2) \<le> m \<and> m \<le> sort xs ! (length xs div 2)"
proof (cases "odd (length xs)")
  case True
  then have "(length xs - 1) div 2 = length xs div 2" by (elim oddE) simp
  then show ?thesis using True assms(1) by (simp add: median_def Let_def)
next
  case False
  let ?n = "length xs div 2"
  have n: "(length xs - 1) div 2 = ?n - 1" "?n - 1 < length xs" "?n < length xs"
  proof -
    obtain k where k: "length xs = 2 * k" using False by (auto elim: evenE)
    moreover have "k \<noteq> 0" using k assms(1) by (cases k) auto
    ultimately show "(length xs - 1) div 2 = ?n - 1" "?n - 1 < length xs" "?n < length xs" by simp_all
  qed
  have mem: "sort xs ! (?n - 1) \<in> set xs" "sort xs ! ?n \<in> set xs"
    using nth_mem[of "?n - 1" "sort xs"] nth_mem[of ?n "sort xs"] n by simp_all
  obtain x y where xy: "sort xs ! (?n - 1) = Fin x" "sort xs ! ?n = Fin y"
    using assms(2) mem by (metis moderate.elims(2))
  have "sort xs ! (?n - 1) \<le> sort xs ! ?n" by (rule sorted_nth_mono) (use n in auto)
  then obtain z where "fdiv (fadd (Fin x) (Fin y)) (Fin 2) = Inr (Fin z)" "x \<le> z" "z \<le> y"
    using midpoint_between[of x y] assms(2) mem xy by (metis Fin_le_iff)
  then show ?thesis using False assms(1) xy n(1) by (simp add: median_def Let_def)
qed

definition py_sum :: "pyfloat list \<Rightarrow> pyfloat" where
  "py_sum xs = foldl fadd (Fin 0) xs"

section \<open>Blending two values\<close>

text \<open>A positive finite float whose quarter is still a normal one.\<close>

fun normal_time :: "pyfloat \<Rightarrow> bool" where
  "normal_time (Fin x) = (float64 x \<and> 2 powi (- 1000) \<le> x \<and> x < 2 ^ 1024)"
| "normal_time _ = False"

lemma normal_time_pos: "normal_time (Fin x) \<Longrightarrow> 0 < x"
  by (auto intro: less_le_trans[rotated])

lemma normal_time_wf: "normal_time (Fin x) \<Longrightarrow> wf_float (Fin x)"
  using normal_time_pos[of x] by (simp del: power_numeral)

lemma scaled_time:
  assumes "normal_time (Fin x)" "0 \<le> v" "v \<le> 1"
  shows "fmul (Fin x) (Fin v) = Fin (rnd64 (x * v))"
proof -
  have "to_float (x * v) = Fin (rnd64 (x * v)) \<and> 0 \<le> rnd64 (x * v) \<and> rnd64 (x * v) \<le> x"
    using assms normal_time_pos[of x] normal_time_wf[of x]
    by (intro to_float_between) (auto simp: mult_le_cancel_left1 simp del: power_numeral)
  then show ?thesis by (simp add: fmul_def)
qed

lemma blend_constant:
  assumes "normal_time (Fin x)" "w \<in> {1/4, 1/2, 3/4}"
  shows "rnd64 (rnd64 (x * (1 - w)) + rnd64 (x * w)) = x"
proof -
  have f: "float64 x" "2 powi (- 1000) \<le> x" using assms by simp_all
  have q: "rnd64 (rnd64 (3 * x / 4) + rnd64 (x / 4)) = x" by (rule quarters_add_up[OF f])
  obtain m e where x: "x = of_int m * 2 powi e" "2 ^ 52 \<le> m" "m < 2 ^ 53" "- 1052 \<le> e"
    by (rule float64_significand[OF f])
  have "(2::rat) powi e = 2 * 2 powi (e - 1)" using powi_add[of 1 "e - 1"] by (simp add: add.commute)
  then have "x / 2 = of_int m * 2 powi (e - 1)" using x(1) by simp
  then have "float64 (x / 2)"
    unfolding float64_def by (intro exI[of _ m] exI[of _ "e - 1"]) (use x in auto)
  then have "rnd64 (x / 2) = x / 2" by (rule b64.rnd_rep)
  then have h: "rnd64 (rnd64 (x * (1 - 1/2)) + rnd64 (x * (1/2))) = x" using b64.rnd_rep[OF f(1)]
    by (metis add_diff_cancel_right' field_sum_of_halves mult.commute mult_2 times_divide_eq_right nonzero_mult_div_cancel_left one_add_one mult_1_right)
  have "rnd64 (rnd64 (x * (1 - 1/4)) + rnd64 (x * (1/4))) = x"
    "rnd64 (rnd64 (x * (1 - 3/4)) + rnd64 (x * (3/4))) = x"
    using q by (simp_all add: add.commute mult.commute)
  then show ?thesis using assms(2) h by blast
qed

lemma blend_between:
  assumes "normal_time (Fin x)" "normal_time (Fin y)" "x \<le> y" "w \<in> {1/4, 1/2, 3/4}"
  shows "\<exists>z. fadd (fmul (Fin x) (fsub (Fin 1) (Fin w))) (fmul (Fin y) (Fin w)) = Fin z \<and> x \<le> z \<and> z \<le> y"
proof -
  have "float64 (1 - 1/4)" "float64 (1 - 1/2)" "float64 (1 - 3/4)"
    using float64_quarters[of 3] float64_quarters[of 2] float64_quarters[of 1] by simp_all
  then have "float64 (1 - w)" using assms(4) by blast
  moreover have w: "0 \<le> w" "w \<le> 1" using assms(4) by auto
  ultimately have "wf_float (Fin (1 - w))" by auto
  then have one: "fsub (Fin 1) (Fin w) = Fin (1 - w)" using to_float_wf by (simp add: fsub_def)
  let ?s = "rnd64 (x * (1 - w)) + rnd64 (y * w)"
  have "rnd64 (rnd64 (x * (1 - w)) + rnd64 (x * w)) \<le> rnd64 ?s"
    by (rule b64.rnd_blend_mono) (use assms(3) w in auto)
  then have lo: "x \<le> rnd64 ?s" using blend_constant[OF assms(1,4)] by simp
  have "rnd64 ?s \<le> rnd64 (rnd64 (y * (1 - w)) + rnd64 (y * w))"
    by (rule b64.rnd_blend_mono) (use assms(3) w in auto)
  then have hi: "rnd64 ?s \<le> y" using blend_constant[OF assms(2,4)] by simp
  have "\<bar>rnd64 ?s\<bar> < 2 ^ 1024"
    using lo hi normal_time_pos[OF assms(1)] assms(2) by (simp del: power_numeral)
  then have "to_float ?s = Fin (rnd64 ?s)" by (rule to_float_Fin)
  then show ?thesis using lo hi scaled_time[OF assms(1), of "1 - w"] scaled_time[OF assms(2), of w] w
    by (simp add: one)
qed

text \<open>The position of a quartile is exact, and so is its distance from the index below.\<close>

lemma quarter_position:
  assumes "q \<in> {1/4, 3/4}" "0 \<le> k" "k \<le> 2 ^ 50"
  shows "fmul (Fin (of_int k)) (Fin q) = Fin (of_int k * q)"
proof -
  obtain j where j: "q = of_int j / 4" "j \<in> {1, 3}" using assms(1) by force
  have "k * j \<le> 2 ^ 50 * 3" using assms(2,3) j(2) by (intro mult_mono) auto
  moreover have "0 \<le> k * j" using assms(2) j(2) by auto
  ultimately have b: "\<bar>k * j\<bar> \<le> 2 ^ 53" by simp
  have e: "of_int k * q = of_int (k * j) / 4" by (simp add: j(1))
  have "wf_float (Fin (of_int (k * j) / 4))"
  proof -
    have "\<bar>of_int (k * j) / 4 :: rat\<bar> \<le> \<bar>of_int (k * j)\<bar>" by simp
    also have "\<dots> < 2 ^ 1024" using wf_float_int[OF b] by (simp del: power_numeral)
    finally show ?thesis using float64_quarters[OF b] by (simp del: power_numeral)
  qed
  then show ?thesis unfolding fmul_def using to_float_wf by (simp add: e)
qed

lemma quarter_weight:
  assumes "q \<in> {1/4, 3/4::rat}" "0 \<le> k" "k \<le> (2::int) ^ 50" "\<lfloor>of_int k * q\<rfloor> \<noteq> \<lceil>of_int k * q\<rceil>"
  shows "of_int k * q - of_int \<lfloor>of_int k * q\<rfloor> \<in> {1/4, 1/2, 3/4}
    \<and> fsub (Fin (of_int k * q)) (Fin (of_int \<lfloor>of_int k * q\<rfloor>)) = Fin (of_int k * q - of_int \<lfloor>of_int k * q\<rfloor>)"
proof -
  obtain j where j: "q = of_int j / 4" "j \<in> {1, 3::int}" using assms(1) by force
  define n where "n = k * j"
  have e: "of_int k * q = of_int n / 4" by (simp add: j(1) n_def)
  have fl: "\<lfloor>of_int n / 4 :: rat\<rfloor> = n div 4" by (metis floor_divide_of_int_eq of_int_numeral)
  have split: "(of_int n / 4 :: rat) = of_int (n div 4) + of_int (n mod 4) / 4"
  proof -
    have "of_int n = (of_int (4 * (n div 4) + n mod 4) :: rat)" by simp
    also have "\<dots> = 4 * of_int (n div 4) + of_int (n mod 4)" by (simp only: of_int_add of_int_mult of_int_numeral)
    finally show ?thesis by linarith
  qed
  then have d: "of_int n / 4 - of_int (n div 4) = (of_int (n mod 4) / 4 :: rat)" by linarith
  have "n mod 4 \<noteq> 0"
  proof
    assume "n mod 4 = 0"
    then have "(of_int n / 4 :: rat) = of_int (n div 4)" using split by linarith
    then show False using assms(4) e by simp
  qed
  then have "n mod 4 = 1 \<or> n mod 4 = 2 \<or> n mod 4 = 3" by presburger
  then have "n mod 4 \<in> {1, 2, 3}" by simp
  then have m: "of_int (n mod 4) / 4 \<in> {1/4, 1/2, 3/4::rat}" by auto
  then have "wf_float (Fin (of_int (n mod 4) / 4))"
    using float64_quarters[of "n mod 4"] \<open>n mod 4 \<in> {1, 2, 3}\<close> by auto
  then show ?thesis using m by (simp add: e fl d fsub_def to_float_wf)
qed

end
