(* ===== verification/Aggregation.thy ===== *)
theory Aggregation
  imports Analysis PyStats
begin

text \<open>
  \<^verbatim>\<open>tools/ghalo_analyze.py\<close>, aggregation of repeated runs: percentiles, the keys
  that decide which runs belong together, and the table of statistics per group and size.
  The tuples that serve as keys are lists of values.  The comparison of floats is total on
  the values statistics are defined for; a list with a NaN never yields a row, as its
  standard deviation raises.
\<close>

section \<open>Percentiles\<close>

definition percentile :: "pyfloat list \<Rightarrow> pyfloat \<Rightarrow> pyfloat res" where
  "percentile values fraction =
     (if values = [] then Inl (AnalysisError ''percentile requires at least one value'')
      else (let ordered = sort values in
        if length ordered = 1 then Inr (hd ordered)
        else bindR (int_to_float (int (length ordered) - 1)) (\<lambda>span.
          let position = fmul span fraction in
          bindR (math_floor position) (\<lambda>lower_index.
          bindR (math_ceil position) (\<lambda>upper_index.
          if lower_index = upper_index then bindR (float_to_int position) (py_index ordered)
          else bindR (int_to_float lower_index) (\<lambda>low.
            let weight = fsub position low in
            bindR (py_index ordered lower_index) (\<lambda>x.
            bindR (py_index ordered upper_index) (\<lambda>y.
            Inr (fadd (fmul x (fsub (Fin 1) weight)) (fmul y weight))))))))))"

text \<open>The indices a quartile lies between.\<close>

definition quartile_low :: "pyfloat list \<Rightarrow> rat \<Rightarrow> nat" where
  "quartile_low xs q = nat \<lfloor>of_nat (length xs - 1) * q\<rfloor>"

definition quartile_high :: "pyfloat list \<Rightarrow> rat \<Rightarrow> nat" where
  "quartile_high xs q = nat \<lceil>of_nat (length xs - 1) * q\<rceil>"

lemma normal_time_cases: "normal_time v \<Longrightarrow> \<exists>x. v = Fin x"
  by (cases v) auto

lemma percentile_bounds:
  assumes "values \<noteq> []" "length values \<le> 2 ^ 50" "\<forall>v \<in> set values. normal_time v" "q \<in> {1/4, 3/4}"
  shows "\<exists>p. percentile values (Fin q) = Inr p
    \<and> sort values ! quartile_low values q \<le> p \<and> p \<le> sort values ! quartile_high values q"
proof (cases "length values = 1")
  case True
  then obtain v where v: "values = [v]" by (cases "values") auto
  then show ?thesis using assms(4) by (auto simp: percentile_def quartile_low_def quartile_high_def)
next
  case False
  let ?s = "sort values"
  define k where "k = int (length values) - 1"
  let ?p = "of_int k * q"
  have k: "0 \<le> k" "k \<le> 2 ^ 50" "int (length values) - 1 = k" "int (length values) = k + 1"
    using assms(1,2) False by (cases "values"; simp add: k_def)+
  have len: "of_nat (length values - 1) = (of_int k :: rat)"
    using assms(1) by (simp add: of_nat_diff Suc_le_eq k_def)
  have q: "0 \<le> q" "q \<le> 1" using assms(4) by auto
  have p: "0 \<le> ?p" "?p \<le> of_int k" using k q by (simp_all add: mult_left_le)
  have span: "int_to_float k = Inr (Fin (of_int k))" by (rule int_to_float_small) (use k in simp)
  have pos: "fmul (Fin (of_int k)) (Fin q) = Fin ?p" by (rule quarter_position[OF assms(4) k(1,2)])
  have lo: "quartile_low values q = nat \<lfloor>?p\<rfloor>" and hi: "quartile_high values q = nat \<lceil>?p\<rceil>"
    unfolding quartile_low_def quartile_high_def len by (rule refl)+
  have fl: "0 \<le> \<lfloor>?p\<rfloor>" "\<lfloor>?p\<rfloor> \<le> k" "0 \<le> \<lceil>?p\<rceil>" "\<lceil>?p\<rceil> \<le> k"
    using p by (simp_all add: floor_le_iff ceiling_le_iff le_ceiling_iff)
  have ix: "nat \<lfloor>?p\<rfloor> < length values" "nat \<lceil>?p\<rceil> < length values" using fl k(4) by linarith+
  have nth: "py_index ?s \<lfloor>?p\<rfloor> = Inr (?s ! nat \<lfloor>?p\<rfloor>)" "py_index ?s \<lceil>?p\<rceil> = Inr (?s ! nat \<lceil>?p\<rceil>)"
    using fl k(4) by (simp_all add: py_index_def)
  show ?thesis
  proof (cases "\<lfloor>?p\<rfloor> = \<lceil>?p\<rceil>")
    case True
    then have "percentile values (Fin q) = Inr (?s ! nat \<lfloor>?p\<rfloor>)"
      using assms(1) False span pos nth p by (simp add: percentile_def Let_def k(3))
    then show ?thesis unfolding lo hi using True by simp
  next
    case ne: False
    let ?w = "?p - of_int \<lfloor>?p\<rfloor>"
    have w: "?w \<in> {1/4, 1/2, 3/4}" "fsub (Fin ?p) (Fin (of_int \<lfloor>?p\<rfloor>)) = Fin ?w"
      using quarter_weight[OF assms(4) k(1,2) ne] by blast+
    have mem: "?s ! nat \<lfloor>?p\<rfloor> \<in> set values" "?s ! nat \<lceil>?p\<rceil> \<in> set values"
      using nth_mem[of "nat \<lfloor>?p\<rfloor>" ?s] nth_mem[of "nat \<lceil>?p\<rceil>" ?s] ix by simp_all
    obtain x y where xy: "?s ! nat \<lfloor>?p\<rfloor> = Fin x" "?s ! nat \<lceil>?p\<rceil> = Fin y"
      using assms(3) mem normal_time_cases by blast
    have "?s ! nat \<lfloor>?p\<rfloor> \<le> ?s ! nat \<lceil>?p\<rceil>"
      by (rule sorted_nth_mono) (use ix in \<open>auto intro: nat_mono floor_le_ceiling\<close>)
    then have le: "x \<le> y" using xy by simp
    have low: "int_to_float \<lfloor>?p\<rfloor> = Inr (Fin (of_int \<lfloor>?p\<rfloor>))"
    proof (rule int_to_float_small)
      have "k \<le> 2 ^ 53" using k(2) by simp
      then show "\<bar>\<lfloor>?p\<rfloor>\<bar> \<le> 2 ^ 53" using fl(1,2) by linarith
    qed
    obtain z where z: "fadd (fmul (Fin x) (fsub (Fin 1) (Fin ?w))) (fmul (Fin y) (Fin ?w)) = Fin z" "x \<le> z" "z \<le> y"
      using blend_between[OF _ _ le w(1)] assms(3) mem xy by force
    then have "percentile values (Fin q) = Inr (Fin z)"
      using assms(1) False span pos nth ne low xy w(2) by (simp add: percentile_def Let_def k(3))
    then show ?thesis unfolding lo hi using xy z by simp
  qed
qed

lemma quartile_indices:
  assumes "3 \<le> length xs"
  shows "quartile_high xs (1/4) \<le> (length xs - 1) div 2" "length xs div 2 \<le> quartile_low xs (3/4)"
    "quartile_low xs (3/4) < length xs"
proof -
  define k where "k = length xs - 1"
  have k: "2 \<le> k" "length xs = Suc k" using assms by (simp_all add: k_def)
  have "\<lceil>of_nat k * (1/4) :: rat\<rceil> \<le> int (k div 2)"
  proof -
    have "k \<le> 4 * (k div 2)" using k(1) by presburger
    then have "(of_nat k :: rat) \<le> of_nat (4 * (k div 2))" by (simp only: of_nat_le_iff)
    then show ?thesis by (simp add: ceiling_le_iff)
  qed
  then show "quartile_high xs (1/4) \<le> (length xs - 1) div 2" unfolding quartile_high_def k_def[symmetric] by simp
  have "int (length xs div 2) \<le> \<lfloor>of_nat k * (3/4) :: rat\<rfloor>"
  proof -
    have "4 * (Suc k div 2) \<le> 3 * k" using k(1) by presburger
    then have "(of_nat (4 * (Suc k div 2)) :: rat) \<le> of_nat (3 * k)" by (simp only: of_nat_le_iff)
    then show ?thesis by (simp add: le_floor_iff k(2))
  qed
  then show "length xs div 2 \<le> quartile_low xs (3/4)" unfolding quartile_low_def k_def[symmetric] by simp
  have "\<lfloor>of_nat k * (3/4) :: rat\<rfloor> < int (Suc k)" by (simp add: floor_less_iff)
  then show "quartile_low xs (3/4) < length xs" unfolding quartile_low_def k_def[symmetric] using k(2) by simp
qed

section \<open>Keys\<close>

type_synonym group_key = "json list"

definition bytes_key :: "run \<Rightarrow> json" where
  "bytes_key r = JList (map (\<lambda>x. JList [JInt (halo_words x), JInt (total_exchange_bytes_per_rank x)])
     (sorted_results r))"

definition compatibility_key :: "run \<Rightarrow> group_key res" where
  "compatibility_key r = bindR (nodes r) (\<lambda>nds. bindR (cartesian r) (\<lambda>cart.
     Inr [JStr (run_backend r), int_entry (ranks r), int_entry nds, JStr cart, JStr (rocm_version r),
          JStr (rccl_sync_mode r), bytes_key r, JBool (phase_timing_enabled r)]))"

definition group_value :: "run \<Rightarrow> string \<Rightarrow> json res" where
  "group_value r name =
     (if name = ''system'' then Inr (JStr (system r))
      else if name = ''backend'' then Inr (JStr (run_backend r))
      else if name = ''nodes'' then bindR (nodes r) (\<lambda>n. Inr (int_entry n))
      else if name = ''ranks'' then Inr (int_entry (ranks r))
      else Inl (AnalysisError (''unsupported group-by field '' @ name)))"

definition text_value :: "string \<Rightarrow> json list" where
  "text_value s = (if s = [] then [] else [JStr s])"

definition grouping_key :: "run \<Rightarrow> string list \<Rightarrow> group_key res" where
  "grouping_key r by = bindR (traverse (group_value r) by) (\<lambda>values.
     Inr (values @ text_value (rccl_sync_mode r) @ text_value (rocm_version r)))"

text \<open>One part of the name of a group.\<close>

definition group_label_part :: "string \<times> json \<Rightarrow> string list res" where
  "group_label_part p = (let (name, value) = p in
     if none_or_empty value then Inr []
     else if name = ''system'' then Inr [display_system (json_str value)]
     else if name = ''nodes'' then bindR (json_int value) (\<lambda>n. Inr [plural n ''node''])
     else if name = ''ranks'' then bindR (json_int value) (\<lambda>n. Inr [plural n ''rank''])
     else Inr [json_str value])"

definition group_name :: "string \<Rightarrow> string list \<Rightarrow> string" where
  "group_name def parts = (if parts = [] then def else join '' | '' parts)"

definition requested_group_metadata :: "run \<Rightarrow> group_key \<Rightarrow> string list \<Rightarrow> row res" where
  "requested_group_metadata r key by =
     (let named = zip by key;
          md = update_row [] (map (\<lambda>(name, v). (''group_'' @ name, v)) named);
          md = (if drop (length by) key = [] then md
                else update_row md [(''group_rccl_sync_mode'', JStr (rccl_sync_mode r)),
                                    (''group_rocm_version'', JStr (rocm_version r))])
      in bindR (traverse group_label_part named) (\<lambda>parts.
         Inr (update_row md [(''group'', JStr (group_name ''all runs''
           (concat parts @ text_part (rccl_sync_mode r) @ text_part (rocm_version r))))])))"

definition default_group_metadata :: "run \<Rightarrow> row res" where
  "default_group_metadata r =
     bindR (nodes r) (\<lambda>nds.
     bindR (cartesian r) (\<lambda>cart.
     let parts = (if system r = [] then [] else [display_system (system r)])
           @ (if run_backend r = [] then [] else [display_backend (run_backend r)])
           @ count_part nds ''node'' @ count_part (ranks r) ''rank'' @ text_part cart
           @ text_part (rccl_sync_mode r)
     in bindR (if parts = [] then label r else Inr (join '' | '' parts)) (\<lambda>name.
     bindR (ranks_per_node r) (\<lambda>rpn.
     Inr [(''group'', JStr name), (''group_backend'', JStr (run_backend r)),
          (''group_active_system'', JStr (system r)), (''group_build_system'', JStr (build_system r)),
          (''group_ranks'', count_cell (ranks r)), (''group_nodes'', count_cell nds),
          (''group_ranks_per_node'', count_cell rpn), (''group_cartesian_dimensions'', JStr cart),
          (''group_phase_timing_enabled'', JBool (phase_timing_enabled r)),
          (''group_rccl_sync_mode'', JStr (rccl_sync_mode r)),
          (''group_rocm_version'', JStr (rocm_version r)),
          (''group_bytes_per_rank_by_halo'', JStr (join '';'' (map (\<lambda>x. ''N='' @ string_of_int (halo_words x)
             @ '':'' @ string_of_int (total_exchange_bytes_per_rank x) @ ''B/rank'') (sorted_results r))))]))))"

definition aggregate_group_metadata :: "run \<Rightarrow> group_key \<Rightarrow> string list \<Rightarrow> row res" where
  "aggregate_group_metadata r key by =
     (if by \<noteq> [] then requested_group_metadata r key by else default_group_metadata r)"

section \<open>The table\<close>

text \<open>The statistics of one size in one group.\<close>

definition statistics_cells :: "pyfloat list \<Rightarrow> row res" where
  "statistics_cells values =
     bindR (fmean values) (\<lambda>mean.
     bindR (median values) (\<lambda>med.
     bindR (pstdev values) (\<lambda>psd.
     bindR (if 1 < length values then bindR (stdev values) (\<lambda>s. Inr (JFloat s)) else Inr (JStr [])) (\<lambda>sd.
     bindR (if fbool mean then bindR (fdiv psd mean) (\<lambda>c. Inr (JFloat c)) else Inr (JStr [])) (\<lambda>cv.
     bindR (percentile values (Fin (1/4))) (\<lambda>q1.
     bindR (percentile values (Fin (3/4))) (\<lambda>q3.
     Inr [(''count'', JInt (int (length values))), (''minimum_seconds'', JFloat (py_min values)),
          (''maximum_seconds'', JFloat (py_max values)), (''mean_seconds'', JFloat mean),
          (''median_seconds'', JFloat med), (''population_stddev_seconds'', JFloat psd),
          (''sample_stddev_seconds'', sd), (''coefficient_of_variation'', cv),
          (''first_quartile_seconds'', JFloat q1), (''third_quartile_seconds'', JFloat q3)])))))))"

text \<open>The sizes of a group with the smallest byte count reported for each.\<close>

definition add_size :: "(int, int) dict \<Rightarrow> run_result \<Rightarrow> (int, int) dict" where
  "add_size sizes x = AList.update (halo_words x)
     (case map_of sizes (halo_words x) of None \<Rightarrow> total_exchange_bytes_per_rank x
      | Some previous \<Rightarrow> min previous (total_exchange_bytes_per_rank x)) sizes"

definition group_sizes :: "run list \<Rightarrow> (int, int) dict" where
  "group_sizes rs = foldl add_size [] (concat (map results rs))"

definition size_order :: "(int, int) dict \<Rightarrow> int list" where
  "size_order sizes = map fst (sort_key (\<lambda>(halo, bytes). (bytes, halo)) sizes)"

definition group_times :: "run list \<Rightarrow> int \<Rightarrow> pyfloat list" where
  "group_times rs halo = List.map_filter (\<lambda>r.
     map_option max_average_seconds (map_of (results_by_halo r) halo)) rs"

definition size_row :: "row \<Rightarrow> run list \<Rightarrow> int \<Rightarrow> row list res" where
  "size_row md rs halo = (let values = group_times rs halo in
     if values = [] then Inr []
     else bindR (statistics_cells values) (\<lambda>cells.
       Inr [update_row md ((''halo_words'', JInt halo) # cells)]))"

definition group_rows :: "string list \<Rightarrow> group_key \<times> run list \<Rightarrow> row list res" where
  "group_rows by g =
     bindR (aggregate_group_metadata (hd (snd g)) (fst g) by) (\<lambda>md.
     bindR (traverse (size_row md (snd g)) (size_order (group_sizes (snd g)))) (\<lambda>rws.
     Inr (concat rws)))"

text \<open>The runs in output order, grouped by key.\<close>

definition group_runs :: "run list \<Rightarrow> bool \<Rightarrow> string list \<Rightarrow> (group_key, run list) dict res" where
  "group_runs rs allow_mixed by =
     bindR (sorted_runs_for_output rs) (\<lambda>ordered.
     bindR (traverse (\<lambda>r. if allow_mixed \<and> by \<noteq> [] then grouping_key r by else compatibility_key r) ordered)
       (\<lambda>keys. Inr (map (\<lambda>(k, ps). (k, map snd ps)) (group_by fst (zip keys ordered)))))"

definition aggregate_rows :: "run list \<Rightarrow> bool \<Rightarrow> string list \<Rightarrow> row list res" where
  "aggregate_rows rs allow_mixed by =
     bindR (group_runs rs allow_mixed by) (\<lambda>groups.
     if \<not> allow_mixed \<and> 1 < length groups
     then Inl (AnalysisError ''aggregate inputs have incompatible configurations; use --allow-mixed to group them'')
     else bindR (sort_by (\<lambda>g. run_output_sort_key (hd (snd g))) groups) (\<lambda>ordered_groups.
       bindR (traverse (group_rows by) ordered_groups) (\<lambda>rws. Inr (concat rws))))"

section \<open>What the statistics promise\<close>

text \<open>Times the statistics stay exact enough for: positive, not subnormal when quartered, and
  not overflowing when two are added.\<close>

definition ordinary_time :: "pyfloat \<Rightarrow> bool" where
  "ordinary_time v \<longleftrightarrow> normal_time v \<and> moderate v"

lemma ordinary_not_NaN: "\<forall>v \<in> set xs. ordinary_time v \<Longrightarrow> NaN \<notin> set xs"
  by (auto simp: ordinary_time_def)

lemma ordinary_time_int:
  assumes "1 \<le> n" "n \<le> 2 ^ 53"
  shows "ordinary_time (Fin (of_int n))"
proof -
  have "(of_int n :: rat) \<le> 2 ^ 53" using assms(2) by (metis of_int_le_iff of_int_numeral of_int_power)
  also have "(2::rat) ^ 53 < 2 ^ 1023" by (rule power_strict_increasing) simp_all
  finally have u: "(of_int n :: rat) < 2 ^ 1023" .
  have "(2::rat) ^ 1023 < 2 ^ 1024" by (rule power_strict_increasing) simp_all
  with u have v: "(of_int n :: rat) < 2 ^ 1024" by (rule less_trans)
  have "(2::rat) powi (- 1000) \<le> 1" using powi_le_iff[of "- 1000" 0] by simp
  also have "\<dots> \<le> of_int n" using assms(1) by simp
  finally show ?thesis using float64_of_int[of n] assms u v
    by (simp add: ordinary_time_def del: power_numeral)
qed

text \<open>The percentile code used for the two quartiles always returns a value, and in
  binary64 arithmetic that value lies between the two neighbouring order statistics it
  interpolates.\<close>

lemma quartile_between_neighbours:
  assumes "values \<noteq> []" "length values \<le> 2 ^ 50" "\<forall>v \<in> set values. ordinary_time v" "q \<in> {1/4, 3/4}"
  shows "\<exists>p. percentile values (Fin q) = Inr p
    \<and> sort values ! quartile_low values q \<le> p \<and> p \<le> sort values ! quartile_high values q"
  by (rule percentile_bounds) (use assms in \<open>auto simp: ordinary_time_def\<close>)

lemma quartile_between_neighbours_example:
  "\<exists>p. percentile [Fin 7, Fin 1, Fin 3] (Fin (1/4)) = Inr p
    \<and> sort [Fin 7, Fin 1, Fin 3] ! quartile_low [Fin 7, Fin 1, Fin 3] (1/4) \<le> p
    \<and> p \<le> sort [Fin 7, Fin 1, Fin 3] ! quartile_high [Fin 7, Fin 1, Fin 3] (1/4)"
  by (rule quartile_between_neighbours)
    (use ordinary_time_int[of 1] ordinary_time_int[of 3] ordinary_time_int[of 7] in auto)

text \<open>C16: for three or more repetitions the reported statistics of a size are in order:
  minimum, first quartile, median, third quartile, maximum, all defined.\<close>

theorem five_numbers_in_order:
  assumes "3 \<le> length values" "length values \<le> 2 ^ 50" "\<forall>v \<in> set values. ordinary_time v"
  shows "\<exists>q1 m q3. percentile values (Fin (1/4)) = Inr q1 \<and> median values = Inr m
    \<and> percentile values (Fin (3/4)) = Inr q3
    \<and> py_min values \<le> q1 \<and> q1 \<le> m \<and> m \<le> q3 \<and> q3 \<le> py_max values"
proof -
  let ?s = "sort values" and ?n = "length values"
  have ne: "values \<noteq> []" using assms(1) by auto
  have nt: "\<forall>v \<in> set values. normal_time v" "\<forall>v \<in> set values. moderate v"
    using assms(3) by (auto simp: ordinary_time_def)
  have mono: "?s ! i \<le> ?s ! j" if "i \<le> j" "j < ?n" for i j
    by (rule sorted_nth_mono) (use that in auto)
  obtain q1 where q1: "percentile values (Fin (1/4)) = Inr q1" "?s ! quartile_low values (1/4) \<le> q1"
      "q1 \<le> ?s ! quartile_high values (1/4)"
    using percentile_bounds[OF ne assms(2) nt(1), of "1/4"] by blast
  obtain q3 where q3: "percentile values (Fin (3/4)) = Inr q3" "?s ! quartile_low values (3/4) \<le> q3"
      "q3 \<le> ?s ! quartile_high values (3/4)"
    using percentile_bounds[OF ne assms(2) nt(1), of "3/4"] by blast
  obtain m where m: "median values = Inr m" "?s ! ((?n - 1) div 2) \<le> m" "m \<le> ?s ! (?n div 2)"
    using median_middle[OF ne nt(2)] by blast
  note ix = quartile_indices[OF assms(1)]
  have "?s ! quartile_high values (1/4) \<le> ?s ! ((?n - 1) div 2)" by (rule mono) (use ix ne in auto)
  then have a: "q1 \<le> m" using q1(3) m(2) by (meson order_trans)
  have "?s ! (?n div 2) \<le> ?s ! quartile_low values (3/4)" by (rule mono) (use ix in auto)
  then have b: "m \<le> q3" using q3(2) m(3) by (meson order_trans)
  have hi: "quartile_high values (3/4) < ?n"
  proof -
    have "\<lceil>of_nat (?n - 1) * (3/4) :: rat\<rceil> \<le> int (?n - 1)" by (simp add: ceiling_le_iff)
    then show ?thesis using assms(1) unfolding quartile_high_def by linarith
  qed
  have lo: "quartile_low values (1/4) < ?n"
  proof -
    have "\<lfloor>of_nat (?n - 1) * (1/4) :: rat\<rfloor> \<le> int (?n - 1)" by (simp add: floor_le_iff)
    then show ?thesis using assms(1) unfolding quartile_low_def by linarith
  qed
  have "?s ! quartile_low values (1/4) \<in> set values" "?s ! quartile_high values (3/4) \<in> set values"
    using nth_mem[of "quartile_low values (1/4)" ?s] nth_mem[of "quartile_high values (3/4)" ?s] hi lo by simp_all
  then have "py_min values \<le> q1" "q3 \<le> py_max values"
    using py_min_le[OF ne ordinary_not_NaN[OF assms(3)]] py_max_ge[OF ne ordinary_not_NaN[OF assms(3)]]
      q1(2) q3(3) by (meson order_trans)+
  then show ?thesis using q1(1) q3(1) m(1) a b by blast
qed

theorem five_numbers_in_order_witness:
  "\<exists>q1 m q3. percentile [Fin 7, Fin 1, Fin 3] (Fin (1/4)) = Inr q1 \<and> median [Fin 7, Fin 1, Fin 3] = Inr m
    \<and> percentile [Fin 7, Fin 1, Fin 3] (Fin (3/4)) = Inr q3
    \<and> py_min [Fin 7, Fin 1, Fin 3] \<le> q1 \<and> q1 \<le> m \<and> m \<le> q3 \<and> q3 \<le> py_max [Fin 7, Fin 1, Fin 3]"
  by (rule five_numbers_in_order)
    (use ordinary_time_int[of 1] ordinary_time_int[of 3] ordinary_time_int[of 7] in auto)

section \<open>What grouping promises\<close>

definition key_for :: "bool \<Rightarrow> string list \<Rightarrow> run \<Rightarrow> group_key res" where
  "key_for allow_mixed by r = (if allow_mixed \<and> by \<noteq> [] then grouping_key r by else compatibility_key r)"

lemma group_runs_key_for:
  "group_runs rs allow_mixed by = bindR (sorted_runs_for_output rs) (\<lambda>ordered.
     bindR (traverse (key_for allow_mixed by) ordered)
       (\<lambda>keys. Inr (map (\<lambda>(k, ps). (k, map snd ps)) (group_by fst (zip keys ordered)))))"
proof -
  have "key_for allow_mixed by = (\<lambda>r. if allow_mixed \<and> by \<noteq> [] then grouping_key r by else compatibility_key r)"
    by (rule ext) (simp add: key_for_def)
  then show ?thesis by (simp add: group_runs_def)
qed

lemma mset_filter_keys:
  "distinct ks \<Longrightarrow> mset (concat (map (\<lambda>k. filter (\<lambda>x. f x = k) xs) ks)) = mset (filter (\<lambda>x. f x \<in> set ks) xs)"
proof (induction ks)
  case (Cons k ks)
  have "mset (filter (\<lambda>x. f x = k) xs) + mset (filter (\<lambda>x. f x \<in> set ks) xs)
        = mset (filter (\<lambda>x. f x \<in> set (k # ks)) xs)"
    using Cons.prems by (induction xs) auto
  then show ?case using Cons by simp
qed simp

lemma mset_group_by: "mset (concat (map snd (group_by f xs))) = mset xs"
  using mset_filter_keys[of "uniq (map f xs)" f xs] by (simp add: map_snd_group_by)

lemma group_runs_parts:
  assumes "group_runs rs allow_mixed by = Inr groups"
  shows "mset (concat (map snd groups)) = mset rs \<and> distinct (map fst groups)
    \<and> (\<forall>(k, g) \<in> set groups. g \<noteq> [] \<and> (\<forall>r \<in> set g. key_for allow_mixed by r = Inr k))"
proof -
  obtain ordered ks where o: "sorted_runs_for_output rs = Inr ordered"
    and ks: "traverse (key_for allow_mixed by) ordered = Inr ks"
    and g: "groups = map (\<lambda>(k, ps). (k, map snd ps)) (group_by fst (zip ks ordered))"
    using assms by (auto simp: group_runs_key_for bindR_eq_Inr_iff)
  let ?d = "group_by fst (zip ks ordered)"
  have len: "length ks = length ordered" using ks by (rule traverse_length)
  have "concat (map snd groups) = map snd (concat (map snd ?d))"
    by (simp add: g map_concat comp_def case_prod_unfold)
  then have "mset (concat (map snd groups)) = image_mset snd (mset (zip ks ordered))"
    by (simp add: mset_group_by)
  also have "\<dots> = mset (map snd (zip ks ordered))" by simp
  also have "\<dots> = mset rs" using o len by (simp add: sorted_runs_for_output_def sort_by_mset)
  finally have "mset (concat (map snd groups)) = mset rs" .
  moreover have "map fst groups = map fst ?d" by (simp add: g case_prod_unfold comp_def)
  then have "distinct (map fst groups)" by (simp only: distinct_group_by)
  moreover have "g \<noteq> [] \<and> (\<forall>r \<in> set g. key_for allow_mixed by r = Inr k)" if kg: "(k, g) \<in> set groups" for k g
  proof -
    obtain ps where ps: "(k, ps) \<in> set ?d" "g = map snd ps" using kg g by auto
    have "ps = filter (\<lambda>x. fst x = k) (zip ks ordered)" "ps \<noteq> []"
      using group_by_memD[OF ps(1)] by blast+
    then show ?thesis using ps(2) traverse_zip_mem[OF ks] by auto
  qed
  ultimately show ?thesis by blast
qed

text \<open>C20: grouping partitions the runs: every run is in exactly one group, no group is empty,
  keys are distinct, and every run of a group has the group's key.\<close>

theorem group_runs_partition:
  assumes "group_runs rs allow_mixed by = Inr groups"
  shows "mset (concat (map snd groups)) = mset rs \<and> distinct (map fst groups)
    \<and> (\<forall>(k, g) \<in> set groups. g \<noteq> [] \<and> (\<forall>r \<in> set g. key_for allow_mixed by r = Inr k))"
  by (rule group_runs_parts[OF assms])

abbreviation (input) sample_c :: run where "sample_c \<equiv> sample_run ''e'' [sample_result 2 (Fin 1)]"

lemma group_samples:
  "group_runs [sample_b, sample_a] False [] = Inr (projr (group_runs [sample_b, sample_a] False []))"
  "aggregate_rows [sample_a, sample_c] False [] = Inr (projr (aggregate_rows [sample_a, sample_c] False []))"
proof -
  have "\<not> isl (group_runs [sample_b, sample_a] False [])" "\<not> isl (aggregate_rows [sample_a, sample_c] False [])"
    by code_simp+
  note h = this
  show "group_runs [sample_b, sample_a] False [] = Inr (projr (group_runs [sample_b, sample_a] False []))"
    "aggregate_rows [sample_a, sample_c] False [] = Inr (projr (aggregate_rows [sample_a, sample_c] False []))"
    by (rule not_isl_Inr[OF h(1)], rule not_isl_Inr[OF h(2)])
qed

theorem group_runs_partition_witness:
  "let groups = projr (group_runs [sample_b, sample_a] False [])
   in mset (concat (map snd groups)) = mset [sample_b, sample_a] \<and> distinct (map fst groups)"
  using group_runs_partition[OF group_samples(1)] by (simp add: Let_def)

lemma mem_concat_snd: "r \<in> set (concat (map snd gs)) \<longleftrightarrow> (\<exists>k g. (k, g) \<in> set gs \<and> r \<in> set g)"
  by force

text \<open>C2: aggregating without the permission to mix never combines incompatible runs: when it
  succeeds, all runs agree in backend, counts, layout, versions, message sizes and timing mode;
  runs that differ are refused.\<close>

theorem aggregate_never_mixes:
  assumes "aggregate_rows rs False by = Inr table" "r \<in> set rs" "r' \<in> set rs"
  shows "compatibility_key r = compatibility_key r' \<and> \<not> isl (compatibility_key r)"
proof -
  obtain groups where g: "group_runs rs False by = Inr groups" and one: "length groups \<le> 1"
    using assms(1) by (auto simp: aggregate_rows_def bindR_eq_Inr_iff split: if_splits)
  have part: "mset (concat (map snd groups)) = mset rs"
    "\<And>k g r. (k, g) \<in> set groups \<Longrightarrow> r \<in> set g \<Longrightarrow> compatibility_key r = Inr k"
    using group_runs_parts[OF g] by (auto simp: key_for_def)
  have "set (concat (map snd groups)) = set rs" using part(1) by (metis set_mset_mset)
  then obtain k g k' g' where "(k, g) \<in> set groups" "r \<in> set g" "(k', g') \<in> set groups" "r' \<in> set g'"
    using assms(2,3) mem_concat_snd[of r groups] mem_concat_snd[of r' groups] by auto
  moreover have "k = k'" using calculation one by (cases groups) auto
  ultimately show ?thesis using part(2) by (metis isl_def sum.disc(2))
qed

theorem aggregate_never_mixes_witness: "compatibility_key sample_a = compatibility_key sample_c"
  using aggregate_never_mixes[OF group_samples(2), of sample_a sample_c] by simp

text \<open>The first key wins: grouping fields are paired with the compatibility key when mixing is not
  allowed, so the group's system is its backend, and grouping by nodes fails on it.\<close>

lemma group_by_without_mixing:
  "\<not> isl (aggregate_rows [sample_a] False [''system''])
   \<and> map (\<lambda>rw. map_of rw ''group_system'') (projr (aggregate_rows [sample_a] False [''system''])) = [Some (JStr ''RCCL'')]
   \<and> aggregate_rows [sample_a] False [''nodes''] = Inl ValueError"
  by code_simp

lemma nan_time_accepted:
  "validate_run (sample_run ''d'' [sample_result 2 NaN]) = Inr () \<and> pstdev [NaN] = Inl AttributeError"
  by code_simp


lemma group_sizes_lookup:
  "map_of (foldl add_size [] xs) h = (let bs = map total_exchange_bytes_per_rank (filter (\<lambda>x. halo_words x = h) xs)
     in if bs = [] then None else Some (Min (set bs)))"
proof (induction xs rule: rev_induct)
  case (snoc x xs)
  let ?t = "total_exchange_bytes_per_rank" and ?D = "foldl add_size [] xs"
  define bs where "bs = map ?t (filter (\<lambda>x. halo_words x = h) xs)"
  have ih: "map_of ?D h = (if bs = [] then None else Some (Min (set bs)))"
    using snoc by (simp only: bs_def Let_def)
  show ?case
  proof (cases "halo_words x = h")
    case True
    have "map_of (add_size ?D x) h = Some (Min (set (bs @ [?t x])))"
      using True by (cases "bs = []") (simp_all add: add_size_def update_conv ih min.commute)
    moreover have "map ?t (filter (\<lambda>x. halo_words x = h) (xs @ [x])) = bs @ [?t x]"
      using True by (simp add: bs_def)
    ultimately show ?thesis by (simp only: foldl_append foldl.simps Let_def) simp
  next
    case False
    then have "map ?t (filter (\<lambda>x. halo_words x = h) (xs @ [x])) = bs" by (simp add: bs_def)
    moreover have "map_of (add_size ?D x) h = map_of ?D h" using False by (simp add: add_size_def update_conv)
    ultimately show ?thesis using ih by (simp only: foldl_append foldl.simps Let_def)
  qed
qed simp

lemma keys_group_sizes: "keys_of (group_sizes rs) = uniq (map halo_words (concat (map results rs)))"
  unfolding group_sizes_def add_size_def[abs_def] by (rule pd.ks_fold)

text \<open>The sizes of a group: every size some run has, by byte count and then by size.\<close>

lemma size_order_spec:
  "distinct (size_order (group_sizes g)) \<and> set (size_order (group_sizes g)) = (\<Union>r \<in> set g. halo_words ` set (results r))
   \<and> sorted (map (\<lambda>h. (the (map_of (group_sizes g) h), h)) (size_order (group_sizes g)))"
proof -
  let ?d = "group_sizes g"
  have d: "distinct (map fst ?d)" by (simp add: keys_group_sizes)
  have "distinct (size_order ?d)"
  proof -
    have "mset (size_order ?d) = mset (map fst ?d)" by (simp add: size_order_def)
    then show ?thesis using d mset_eq_imp_distinct_iff by blast
  qed
  moreover have "set (size_order ?d) = set (keys_of ?d)" by (simp add: size_order_def)
  then have "set (size_order ?d) = (\<Union>r \<in> set g. halo_words ` set (results r))"
    by (simp only: keys_group_sizes set_uniq) auto
  moreover have "map (\<lambda>h. (the (map_of ?d h), h)) (size_order ?d)
      = map (\<lambda>(halo, bytes). (bytes, halo)) (sort_key (\<lambda>(halo, bytes). (bytes, halo)) ?d)"
    using d by (auto simp: size_order_def)
  then have "sorted (map (\<lambda>h. (the (map_of ?d h), h)) (size_order ?d))" by simp
  ultimately show ?thesis by blast
qed

lemma update_row_lookup:
  "distinct (map fst e) \<Longrightarrow> map_of (update_row d e) k = (case map_of e k of Some v \<Rightarrow> Some v | None \<Rightarrow> map_of d k)"
proof (induction e arbitrary: d)
  case (Cons p e)
  obtain k' v where p: "p = (k', v)" by fastforce
  have "map_of e k' = None" using Cons.prems by (simp add: p map_of_eq_None_iff)
  then show ?case using Cons by (auto simp: update_row_def p update_conv split: option.splits)
qed (simp add: update_row_def)

lemma statistics_cells_count:
  "statistics_cells values = Inr cells \<Longrightarrow> map_of cells ''count'' = Some (JInt (int (length values)))
     \<and> distinct (map fst ((''halo_words'', v) # cells)) \<and> map_of cells ''halo_words'' = None"
  by (auto simp: statistics_cells_def bindR_eq_Inr_iff)

lemma length_group_times:
  assumes "\<forall>r \<in> set g. valid_run r"
  shows "length (group_times g h) = length (filter (\<lambda>r. h \<in> halo_words ` set (results r)) g)"
proof -
  have "map_of (results_by_halo r) h = None \<longleftrightarrow> h \<notin> halo_words ` set (results r)" if "valid_run r" for r
    using keys_results_by_halo[OF that] by (simp add: map_of_eq_None_iff)
  then have "filter (\<lambda>r. map_of (results_by_halo r) h \<noteq> None) g = filter (\<lambda>r. h \<in> halo_words ` set (results r)) g"
    using assms by (intro filter_cong) auto
  moreover have "length (group_times g h) = length (filter (\<lambda>r. map_of (results_by_halo r) h \<noteq> None) g)"
    unfolding group_times_def by (induction g) (auto simp: List.map_filter_def)
  ultimately show ?thesis by simp
qed

lemma map_concat_singles:
  "list_all2 (\<lambda>x ys. \<exists>y. ys = [y] \<and> f y = g x) xs yss \<Longrightarrow> map f (concat yss) = map g xs"
  by (induction rule: list_all2_induct) auto

text \<open>C19: a group has one row for every size that some run of it has, ordered by the smallest byte
  count reported for the size and then by the size; the row counts the runs that have the size.\<close>

theorem group_rows_complete:
  assumes "group_rows by (k, g) = Inr table" "\<forall>r \<in> set g. valid_run r"
  shows "\<exists>sizes. distinct sizes \<and> set sizes = (\<Union>r \<in> set g. halo_words ` set (results r))
    \<and> sorted (map (\<lambda>h. (Min {total_exchange_bytes_per_rank x |x r. r \<in> set g \<and> x \<in> set (results r) \<and> halo_words x = h}, h)) sizes)
    \<and> map (\<lambda>rw. (map_of rw ''halo_words'', map_of rw ''count'')) table
      = map (\<lambda>h. (Some (JInt h), Some (JInt (int (length (filter (\<lambda>r. h \<in> halo_words ` set (results r)) g)))))) sizes"
proof -
  let ?sizes = "size_order (group_sizes g)"
  obtain md rws where rws: "traverse (size_row md g) ?sizes = Inr rws" and table: "table = concat rws"
    using assms(1) by (auto simp: group_rows_def bindR_eq_Inr_iff)
  note so = size_order_spec[of g]
  have row: "\<exists>rw. rs = [rw] \<and> map_of rw ''halo_words'' = Some (JInt h)
      \<and> map_of rw ''count'' = Some (JInt (int (length (filter (\<lambda>r. h \<in> halo_words ` set (results r)) g))))"
    if h: "h \<in> set ?sizes" "size_row md g h = Inr rs" for h rs
  proof -
    have "filter (\<lambda>r. h \<in> halo_words ` set (results r)) g \<noteq> []" using h(1) so by (auto simp: filter_empty_conv)
    then have ne: "group_times g h \<noteq> []" using length_group_times[OF assms(2), of h] by auto
    then obtain cells where c: "statistics_cells (group_times g h) = Inr cells"
      "rs = [update_row md ((''halo_words'', JInt h) # cells)]"
      using h(2) by (auto simp: size_row_def Let_def bindR_eq_Inr_iff)
    note cc = statistics_cells_count[OF c(1), of "JInt h"]
    show ?thesis using cc length_group_times[OF assms(2), of h]
      by (simp add: c(2) update_row_lookup del: map_of.simps) simp
  qed
  let ?of = "\<lambda>h. (Some (JInt h), Some (JInt (int (length (filter (\<lambda>r. h \<in> halo_words ` set (results r)) g)))))"
  have rl: "list_all2 (\<lambda>h rs. size_row md g h = Inr rs) ?sizes rws" using rws by (simp add: traverse_Inr_iff)
  have "list_all2 (\<lambda>h rs. \<exists>rw. rs = [rw] \<and> (map_of rw ''halo_words'', map_of rw ''count'') = ?of h) ?sizes rws"
    using rl by (rule list.rel_mono_strong) (auto dest: row)
  then have "map (\<lambda>rw. (map_of rw ''halo_words'', map_of rw ''count'')) (concat rws) = map ?of ?sizes"
    by (rule map_concat_singles)
  moreover have "the (map_of (group_sizes g) h) = Min {total_exchange_bytes_per_rank x |x r. r \<in> set g \<and> x \<in> set (results r) \<and> halo_words x = h}"
    if "h \<in> set ?sizes" for h
  proof -
    have "set (map total_exchange_bytes_per_rank (filter (\<lambda>x. halo_words x = h) (concat (map results g))))
        = {total_exchange_bytes_per_rank x |x r. r \<in> set g \<and> x \<in> set (results r) \<and> halo_words x = h}" by auto
    moreover have "filter (\<lambda>x. halo_words x = h) (concat (map results g)) \<noteq> []"
      using that so by (auto simp: filter_empty_conv)
    ultimately show ?thesis by (simp add: group_sizes_def group_sizes_lookup Let_def)
  qed
  then have "map (\<lambda>h. (Min {total_exchange_bytes_per_rank x |x r. r \<in> set g \<and> x \<in> set (results r) \<and> halo_words x = h}, h)) ?sizes
      = map (\<lambda>h. (the (map_of (group_sizes g) h), h)) ?sizes" by simp
  ultimately show ?thesis using so table by (intro exI[of _ ?sizes]) (simp only: conj_assoc)
qed

theorem group_rows_complete_witness:
  "\<exists>sizes. set sizes = {2} \<and> map (\<lambda>rw. (map_of rw ''halo_words'', map_of rw ''count''))
     (projr (group_rows [] ([], [sample_a, sample_c]))) = map (\<lambda>h. (Some (JInt h), Some (JInt 2))) sizes"
proof -
  have "\<not> isl (group_rows [] ([], [sample_a, sample_c]))" by code_simp
  then have g: "group_rows [] ([], [sample_a, sample_c]) = Inr (projr (group_rows [] ([], [sample_a, sample_c])))"
    by (rule not_isl_Inr)
  have v: "\<forall>r \<in> set [sample_a, sample_c]. valid_run r"
    by (simp add: sample_run_def sample_result_def valid_run_def positive_time_def fle_def feq_def json_eq.simps[of _ "JInt 4"] world_size_def opt_json_def)
  show ?thesis using group_rows_complete[OF g v] by (fastforce simp: sample_run_def sample_result_def)
qed

end
