(* ===== verification/Reporting.thy ===== *)
theory Reporting
  imports Plotting Aggregation
begin

text \<open>
  \<^verbatim>\<open>tools/ghalo_analyze.py\<close>, the commands: pairs of repeat runs, the analysis and
  report directories, and the subcommands as functions from the state of the files and the
  output streams to an exit code.  \<^verbatim>\<open>main\<close> turns an \<^verbatim>\<open>AnalysisError\<close> into
  exit code 2; any other exception leaves the process.
\<close>

section \<open>Pairs of repeat runs\<close>

definition percent_difference_pair_key :: "run \<Rightarrow> json list res" where
  "percent_difference_pair_key r =
     bindR (nodes r) (\<lambda>nds. bindR (cartesian r) (\<lambda>cart.
     Inr [JStr (system r), JStr (rocm_version r), int_entry nds, int_entry (ranks r), JStr cart, bytes_key r]))"

text \<open>\<^verbatim>\<open>try: ... except AnalysisError as error: ...\<close>.\<close>

definition catch_analysis :: "'a res \<Rightarrow> (string \<Rightarrow> 'a res) \<Rightarrow> 'a res" where
  "catch_analysis m h = (case m of Inl (AnalysisError e) \<Rightarrow> h e | _ \<Rightarrow> m)"

definition repeat_pair :: "run \<Rightarrow> run \<Rightarrow> bool res" where
  "repeat_pair left right =
     bindR (percent_difference_pair_key left) (\<lambda>kl.
     bindR (percent_difference_pair_key right) (\<lambda>kr.
     if kl \<noteq> kr then Inr False
     else if run_backend left = run_backend right \<and> rccl_sync_mode left = rccl_sync_mode right
          \<and> result_path left = result_path right then Inr False
     else catch_analysis (bindR (percent_difference_rows_for_plot [left, right]) (\<lambda>_. Inr True))
            (\<lambda>_. Inr False)))"

fun later_pairs :: "('a \<Rightarrow> 'a \<Rightarrow> bool res) \<Rightarrow> 'a list \<Rightarrow> ('a \<times> 'a) list res" where
  "later_pairs ok [] = Inr []"
| "later_pairs ok (x # xs) =
     bindR (traverse (\<lambda>y. bindR (ok x y) (\<lambda>b. Inr (if b then [(x, y)] else []))) xs) (\<lambda>ps.
     bindR (later_pairs ok xs) (\<lambda>qs. Inr (concat ps @ qs)))"

definition percent_difference_pairs :: "run list \<Rightarrow> (run \<times> run) list res" where
  "percent_difference_pairs rs =
     bindR (sorted_runs_for_output rs) (later_pairs repeat_pair)"

section \<open>Commands that print a table\<close>

record table_args =
  t_format :: string
  t_output :: "string option"

definition show_table :: "env \<Rightarrow> table_args \<Rightarrow> row list \<Rightarrow> run list \<Rightarrow> io \<Rightarrow> io res" where
  "show_table e args table rs s =
     bindR (write_output (env_writable e) (table_json table) (t_format args) (t_output args) s)
       (\<lambda>s'. Inr (write_warnings rs s'))"

definition write_text_in :: "path \<Rightarrow> fs \<Rightarrow> string \<times> string \<Rightarrow> fs res" where
  "write_text_in dir fs p = fs_write fs (child dir (fst p)) (snd p)"

definition all_summaries :: "run list \<Rightarrow> row list res" where
  "all_summaries rs = bindR (traverse (\<lambda>r. summary_rows r True True None) rs) (\<lambda>t. Inr (concat t))"

definition summary_files :: "row list \<Rightarrow> (string \<times> string) list" where
  "summary_files summary =
     [(''summary.csv'', rows_to_csv summary),
      (''summary.json'', json_dumps True (table_json summary) @ [LF]),
      (''summary.md'', rows_to_markdown summary)]"

definition checksum :: "env \<Rightarrow> fs \<Rightarrow> path \<Rightarrow> json" where
  "checksum e fs p = (case map_of fs p of Some (File t) \<Rightarrow> JStr (env_sha256 e t) | _ \<Rightarrow> JNull)"

definition matplotlib_version :: "env \<Rightarrow> string" where
  "matplotlib_version e = or_str (env_matplotlib e) []"

definition analysis_git_commit :: "env \<Rightarrow> string" where
  "analysis_git_commit e = or_str (env_github_sha e)
     (case env_git_head e of Some (status, out) \<Rightarrow> if status = 0 then strip out else [] | None \<Rightarrow> [])"

definition provenance :: "env \<Rightarrow> fs \<Rightarrow> run list \<Rightarrow> string \<Rightarrow> (string \<times> json) list" where
  "provenance e fs rs commit =
     [(''input_paths'', JList (map (\<lambda>r. JStr (str_path (input_path r))) rs)),
      (''input_checksums'', JObj (update_row []
         (map (\<lambda>r. (str_path (input_path r), checksum e fs (input_path r))) rs))),
      (''analysis_command'', JList (map JStr (env_argv e))),
      (''analysis_tool_git_commit'', JStr commit), (''generation_time_utc'', JStr (env_now e)),
      (''python_version'', JStr (env_python e)), (''matplotlib_version'', JStr (matplotlib_version e))]"

text \<open>A file that is written only when its table can be computed.\<close>

definition optional_table :: "path \<Rightarrow> string \<Rightarrow> row list res \<Rightarrow> fs \<Rightarrow> fs res" where
  "optional_table dir name table fs =
     catch_analysis (bindR table (\<lambda>t. write_text_in dir fs (name, rows_to_csv t))) (\<lambda>_. Inr fs)"

definition write_analysis_directory :: "env \<Rightarrow> string \<Rightarrow> run list \<Rightarrow> fs \<Rightarrow> fs res" where
  "write_analysis_directory e output_root unsorted fs =
     bindR (sorted_runs_for_output unsorted) (\<lambda>rs.
     let dir = child (Path output_root) ''analysis'' in
     bindR (fs_mkdirs fs (child dir ''plots'')) (\<lambda>fs.
     bindR (all_summaries rs) (\<lambda>summary.
     bindR (foldR (write_text_in dir) fs (summary_files summary)) (\<lambda>fs.
     bindR (if 2 \<le> length rs
            then bindR (optional_table dir ''comparison.csv'' (compare_rows (rs ! 0) (rs ! 1) False) fs)
                   (optional_table dir ''aggregate.csv'' (aggregate_rows rs False []))
            else Inr fs) (\<lambda>fs.
     write_text_in dir fs (''provenance.json'',
       json_dumps False (JObj (provenance e fs rs (or_str (env_github_sha e) []))))))))) "

definition command_summarize ::
    "env \<Rightarrow> table_args \<Rightarrow> string option \<Rightarrow> bool \<Rightarrow> bool \<Rightarrow> string option \<Rightarrow> string list \<Rightarrow> io \<Rightarrow> (int \<times> io) res"
  where
  "command_summarize e args output_dir include_metadata with_phases override inputs s =
     bindR (load_runs (io_files s) inputs) (\<lambda>loaded.
     bindR (sorted_runs_for_output loaded) (\<lambda>rs.
     bindR (if or_str output_dir [] = [] then Inr (io_files s)
            else write_analysis_directory e (or_str output_dir []) rs (io_files s)) (\<lambda>fs.
     bindR (traverse (\<lambda>r. summary_rows r include_metadata with_phases override) rs) (\<lambda>tables.
     bindR (show_table e args (concat tables) rs (s\<lparr>io_files := fs\<rparr>)) (\<lambda>s'. Inr (0, s'))))))"

definition command_compare ::
    "env \<Rightarrow> table_args \<Rightarrow> bool \<Rightarrow> bool \<Rightarrow> pyfloat \<Rightarrow> string \<Rightarrow> string \<Rightarrow> io \<Rightarrow> (int \<times> io) res" where
  "command_compare e args allow_missing fail_on_regression threshold run_a run_b s =
     bindR (load_runs (io_files s) [run_a, run_b]) (\<lambda>loaded. case loaded of
       [a, b] \<Rightarrow>
         bindR (compare_rows a b allow_missing) (\<lambda>table.
         bindR (show_table e args table [a, b] s) (\<lambda>s'.
         Inr (compare_exit fail_on_regression threshold table, s')))
     | _ \<Rightarrow> Inl ValueError)"

definition command_aggregate ::
    "env \<Rightarrow> table_args \<Rightarrow> bool \<Rightarrow> string list \<Rightarrow> string list \<Rightarrow> io \<Rightarrow> (int \<times> io) res" where
  "command_aggregate e args allow_mixed by inputs s =
     bindR (load_runs (io_files s) inputs) (\<lambda>loaded.
     bindR (sorted_runs_for_output loaded) (\<lambda>rs.
     bindR (aggregate_rows rs allow_mixed by) (\<lambda>table.
     bindR (show_table e args table rs s) (\<lambda>s'. Inr (0, s')))))"

definition command_scaling ::
    "env \<Rightarrow> table_args \<Rightarrow> baseline_args \<Rightarrow> string list \<Rightarrow> io \<Rightarrow> (int \<times> io) res" where
  "command_scaling e args bargs inputs s =
     bindR (load_runs (io_files s) inputs) (\<lambda>loaded.
     bindR (sorted_runs_for_output loaded) (\<lambda>rs.
     bindR (choose_baseline (io_files s) bargs rs) (\<lambda>baseline.
     bindR (scaling_rows rs baseline) (\<lambda>table.
     bindR (show_table e args table rs s) (\<lambda>s'. Inr (0, s'))))))"

section \<open>The report\<close>

record report_args =
  r_output_dir :: string
  r_style :: string
  r_x_axis :: string
  r_legend :: string
  r_dpi :: "int option"
  r_baseline :: baseline_args

definition report_plot_args :: "report_args \<Rightarrow> string \<Rightarrow> path \<Rightarrow> run list \<Rightarrow> plot_args" where
  "report_plot_args args kind output rs =
     \<lparr>p_kind = kind, p_xscale = ''log2'', p_yscale = ''linear'', p_x_axis = r_x_axis args,
      p_style = r_style args, p_format = Some ''png'', p_legend = r_legend args, p_title = None,
      p_label = [], p_labels = None, p_output = Some (str_path output), p_dpi = r_dpi args,
      p_baseline = r_baseline args, p_inputs = map (\<lambda>r. str_path (result_path r)) rs\<rparr>"

text \<open>One requested plot: drawn, or noted with the reason it was skipped.\<close>

definition try_plot ::
    "env \<Rightarrow> report_args \<Rightarrow> path \<Rightarrow> io \<times> string list \<Rightarrow> string \<times> path \<times> run list \<Rightarrow> (io \<times> string list) res" where
  "try_plot e args dir st req = (case (st, req) of ((s, skipped), (kind, output, rs)) \<Rightarrow>
     catch_analysis (bindR (command_plot e (report_plot_args args kind output rs) s) (\<lambda>s'. Inr (s', skipped)))
       (\<lambda>msg. Inr (s, skipped @ [str_path (drop (length dir) output) @ '': '' @ msg])))"

definition two_digits :: "nat \<Rightarrow> string" where
  "two_digits n = pad_left 2 (digits_of (int n))"

definition pair_stem :: "nat \<Rightarrow> run \<times> run \<Rightarrow> string res" where
  "pair_stem i p = bindR (run_comparison_slug (fst p)) (\<lambda>l. bindR (run_comparison_slug (snd p)) (\<lambda>r.
     Inr (''percent-difference-'' @ two_digits i @ ''-'' @ l @ ''-vs-'' @ r)))"

definition numbered :: "'a list \<Rightarrow> (nat \<times> 'a) list" where
  "numbered xs = zip [1..<Suc (length xs)] xs"

text \<open>The comparison files of the pairs, with the names written so far.\<close>

definition write_pair ::
    "path \<Rightarrow> path \<Rightarrow> fs \<times> string list \<Rightarrow> nat \<times> run \<times> run \<Rightarrow> (fs \<times> string list) res" where
  "write_pair dir comparisons st ip = (case (st, ip) of ((fs, written), (i, p)) \<Rightarrow>
     bindR (pair_stem i p) (\<lambda>stem.
     bindR (percent_difference_rows_for_plot [fst p, snd p]) (\<lambda>table.
     let output = child comparisons (stem @ ''.csv'') in
     bindR (fs_write fs output (rows_to_csv table)) (\<lambda>fs'.
     Inr (fs', written @ [str_path (drop (length dir) output)])))))"

definition plot_requests :: "path \<Rightarrow> run list \<Rightarrow> (string \<times> path \<times> run list) list" where
  "plot_requests plots rs =
     [(''latency'', child plots ''latency.png'', rs), (''effective-rate'', child plots ''effective-rate.png'', rs),
      (''scaling'', child plots ''scaling.png'', rs)]
     @ (if length rs = 2 then [(''percent-difference'', child plots ''percent-difference.png'', rs)] else [])"

definition pair_requests :: "path \<Rightarrow> (run \<times> run) list \<Rightarrow> (string \<times> path \<times> run list) list res" where
  "pair_requests plots pairs = traverse (\<lambda>(i, p). bindR (pair_stem i p) (\<lambda>stem.
     Inr (''percent-difference'', child plots (stem @ ''.png''), [fst p, snd p]))) (numbered pairs)"

definition phase_requests :: "path \<Rightarrow> run list \<Rightarrow> (string \<times> path \<times> run list) list res" where
  "phase_requests plots rs = (let phase_runs = filter phase_timing_enabled rs in
     traverse (\<lambda>(i, r).
       if length phase_runs = 1 then Inr (''phase'', child plots ''phase.png'', [r])
       else bindR (run_comparison_slug r) (\<lambda>slug.
         Inr (''phase'', child plots (''phase-'' @ two_digits i @ ''-'' @ slug @ ''.png''), [r])))
       (numbered phase_runs))"

definition report_lines :: "env \<Rightarrow> run list \<Rightarrow> bool \<Rightarrow> bool \<Rightarrow> string list \<Rightarrow> string list" where
  "report_lines e rs has_comparison has_pairs skipped =
     [''# gHALO Analysis Report'', [], ''Generated: '' @ env_now e, [], ''## Inputs'', []]
     @ map (\<lambda>r. ''- `'' @ str_path (input_path r) @ ''`'') rs
     @ [[], ''## Outputs'', [], ''- `summary.csv`'', ''- `summary.json`'', ''- `summary.md`'', ''- `scaling.csv`'']
     @ (if has_comparison then [''- `comparison.csv`''] else [])
     @ (if has_pairs then [''- `comparisons/`''] else [])
     @ [''- `plots/` when matplotlib is available'', [], ''## Skipped Outputs'', []]
     @ (if skipped = [] then [''- None''] else map (\<lambda>item. ''- '' @ item) skipped)"

definition prepare_report :: "env \<Rightarrow> path \<Rightarrow> fs \<Rightarrow> fs res" where
  "prepare_report e dir fs =
     (if fs_exists fs dir \<and> \<not> fs_is_dir fs dir
      then Inl (AnalysisError (''report output path exists but is not a directory: '' @ str_path dir))
      else bindR (fs_mkdirs fs dir) (\<lambda>fs.
        if \<not> env_writable e dir
        then Inl (AnalysisError (''report output directory is not writable: '' @ str_path dir))
        else make_dir fs (child dir ''plots'')))"

text \<open>The comparison of exactly two runs, or the reason it was skipped.\<close>

definition report_comparison :: "path \<Rightarrow> run list \<Rightarrow> fs \<Rightarrow> (fs \<times> string list) res" where
  "report_comparison dir rs fs = (case rs of
     [a, b] \<Rightarrow> catch_analysis
         (bindR (compare_rows a b False) (\<lambda>t.
          bindR (write_text_in dir fs (''comparison.csv'', rows_to_csv t)) (\<lambda>fs'. Inr (fs', []))))
         (\<lambda>msg. Inr (fs, [''comparison.csv: '' @ msg]))
   | _ \<Rightarrow> Inr (fs, [''comparison.csv: requires exactly two compatible repeat runs'']))"

definition write_report_directory :: "env \<Rightarrow> report_args \<Rightarrow> run list \<Rightarrow> io \<Rightarrow> (io \<times> string list) res" where
  "write_report_directory e args unsorted s =
     bindR (sorted_runs_for_output unsorted) (\<lambda>rs.
     let dir = Path (r_output_dir args); plots = child dir ''plots''; comparisons = child dir ''comparisons'' in
     bindR (prepare_report e dir (io_files s)) (\<lambda>fs.
     bindR (all_summaries rs) (\<lambda>summary.
     bindR (foldR (write_text_in dir) fs (summary_files summary)) (\<lambda>fs.
     bindR (choose_baseline fs (r_baseline args) rs) (\<lambda>baseline.
     bindR (scaling_rows rs baseline) (\<lambda>scaling.
     bindR (write_text_in dir fs (''scaling.csv'', rows_to_csv scaling)) (\<lambda>fs.
     bindR (percent_difference_pairs rs) (\<lambda>pairs.
     bindR (report_comparison dir rs fs) (\<lambda>(fs, skipped).
     bindR (if pairs = [] then Inr fs else make_dir fs comparisons) (\<lambda>fs.
     bindR (foldR (write_pair dir comparisons) (fs, []) (numbered pairs)) (\<lambda>(fs, written).
     bindR (foldR (try_plot e args dir) (s\<lparr>io_files := fs\<rparr>, skipped) (plot_requests plots rs)) (\<lambda>st.
     bindR (pair_requests plots pairs) (\<lambda>reqs.
     bindR (foldR (try_plot e args dir) st reqs) (\<lambda>st.
     bindR (phase_requests plots rs) (\<lambda>reqs.
     bindR (foldR (try_plot e args dir) st reqs) (\<lambda>(s, skipped).
     let prov = provenance e (io_files s) rs (analysis_git_commit e)
           @ [(''percent_difference_comparisons'', JList (map JStr written)),
              (''skipped_outputs'', JList (map JStr skipped))]
     in bindR (write_text_in dir (io_files s) (''provenance.json'', json_dumps True (JObj prov) @ [LF])) (\<lambda>fs.
        bindR (write_text_in dir fs (''report.md'', unlines (report_lines e rs
             (fs_exists fs (child dir ''comparison.csv'')) (written \<noteq> []) skipped))) (\<lambda>fs.
        Inr (s\<lparr>io_files := fs\<rparr>, skipped)))))))))))))))))))"

definition command_report :: "env \<Rightarrow> report_args \<Rightarrow> string list \<Rightarrow> io \<Rightarrow> (int \<times> io) res" where
  "command_report e args inputs s =
     bindR (load_runs (io_files s) inputs) (\<lambda>rs.
     bindR (write_report_directory e args rs s) (\<lambda>(s', _).
     Inr (0, write_warnings rs s')))"

section \<open>The entry point\<close>

datatype command =
    Summarize table_args "string option" bool bool "string option" "string list"
  | Compare table_args bool bool pyfloat string string
  | Aggregate table_args bool "string list" "string list"
  | Scale table_args baseline_args "string list"
  | Plot plot_args
  | Report report_args "string list"

definition run_command :: "env \<Rightarrow> command \<Rightarrow> io \<Rightarrow> (int \<times> io) res" where
  "run_command e c s = (case c of
     Summarize t d m p l ins \<Rightarrow> command_summarize e t d m p l ins s
   | Compare t m f th a b \<Rightarrow> command_compare e t m f th a b s
   | Aggregate t m by ins \<Rightarrow> command_aggregate e t m by ins s
   | Scale t b ins \<Rightarrow> command_scaling e t b ins s
   | Plot a \<Rightarrow> bindR (command_plot e a s) (\<lambda>s'. Inr (0, s'))
   | Report a ins \<Rightarrow> command_report e a ins s)"

text \<open>What the process ends with: an exit code and the final state, the exit code 2 with a
  message on the error stream (files written before the error stay, and are not part of the
  outcome), or an exception nothing catches.\<close>

datatype outcome = Exited int io | Refused string | Crashed exn

definition analyze_main :: "env \<Rightarrow> command \<Rightarrow> io \<Rightarrow> outcome" where
  "analyze_main e c s = (case run_command e c s of
     Inr (status, s') \<Rightarrow> Exited status s'
   | Inl (AnalysisError msg) \<Rightarrow> Refused (''error: '' @ msg @ [LF])
   | Inl x \<Rightarrow> Crashed x)"

text \<open>The status \<^verbatim>\<open>sys.exit(main())\<close> hands to the shell; an exception nothing catches ends Python
  with status 1.\<close>

fun process_status :: "outcome \<Rightarrow> int" where
  "process_status (Exited status s) = status"
| "process_status (Refused message) = 2"
| "process_status (Crashed x) = 1"

section \<open>Pairs and exit codes\<close>

lemma later_pairs_mem:
  "later_pairs ok xs = Inr ps \<Longrightarrow> (x, y) \<in> set ps
     \<longleftrightarrow> (\<exists>i j. i < j \<and> j < length xs \<and> xs ! i = x \<and> xs ! j = y \<and> ok x y = Inr True)"
proof (induction xs arbitrary: ps)
  case (Cons z zs)
  obtain qs rs where q: "traverse (\<lambda>y. bindR (ok z y) (\<lambda>b. Inr (if b then [(z, y)] else []))) zs = Inr qs"
    and r: "later_pairs ok zs = Inr rs" and ps: "ps = concat qs @ rs"
    using Cons.prems by (auto simp: bindR_eq_Inr_iff)
  have l: "list_all2 (\<lambda>y q. bindR (ok z y) (\<lambda>b. Inr (if b then [(z, y)] else [])) = Inr q) zs qs"
    using q by (simp add: traverse_Inr_iff)
  have "(x, y) \<in> set (concat qs) \<longleftrightarrow> x = z \<and> y \<in> set zs \<and> ok z y = Inr True"
  proof
    assume "(x, y) \<in> set (concat qs)"
    then obtain w where w: "w \<in> set qs" "(x, y) \<in> set w" by auto
    from list_all2_in2[OF l w(1)] w(2) show "x = z \<and> y \<in> set zs \<and> ok z y = Inr True"
      by (auto simp: bindR_eq_Inr_iff split: if_splits)
  next
    assume a: "x = z \<and> y \<in> set zs \<and> ok z y = Inr True"
    then obtain w where "w \<in> set qs" "bindR (ok z y) (\<lambda>b. Inr (if b then [(z, y)] else [])) = Inr w"
      using list_all2_in1[OF l] by blast
    then show "(x, y) \<in> set (concat qs)" using a by force
  qed
  moreover note Cons.IH[OF r]
  moreover have "(\<exists>i j. i < j \<and> j < length (z # zs) \<and> (z # zs) ! i = x \<and> (z # zs) ! j = y \<and> P)
      \<longleftrightarrow> (x = z \<and> y \<in> set zs \<and> P) \<or> (\<exists>i j. i < j \<and> j < length zs \<and> zs ! i = x \<and> zs ! j = y \<and> P)" (is "?l = ?r") for P
  proof
    assume ?l
    then obtain i j where ij: "i < j" "j < length (z # zs)" "(z # zs) ! i = x" "(z # zs) ! j = y" P by blast
    then obtain j' where "j = Suc j'" by (cases j) auto
    then show ?r using ij by (cases i) (auto simp: in_set_conv_nth)
  next
    assume ?r
    then show ?l
    proof
      assume a: "x = z \<and> y \<in> set zs \<and> P"
      then obtain j where "j < length zs" "zs ! j = y" by (auto simp: in_set_conv_nth)
      then show ?l using a by (intro exI[of _ 0] exI[of _ "Suc j"]) simp
    next
      assume "\<exists>i j. i < j \<and> j < length zs \<and> zs ! i = x \<and> zs ! j = y \<and> P"
      then obtain i j where "i < j \<and> j < length zs \<and> zs ! i = x \<and> zs ! j = y \<and> P" by blast
      then show ?l by (intro exI[of _ "Suc i"] exI[of _ "Suc j"]) simp
    qed
  qed
  ultimately show ?case unfolding ps by auto
qed simp

text \<open>C17: the report compares every pair of runs, earlier run first, that agree in system, version,
  counts, layout and message sizes, that are not the same result twice, and whose difference can
  be computed; so the comparison files of the listed pairs can be written without another check.\<close>

theorem comparison_pairs_spec:
  assumes "percent_difference_pairs rs = Inr ps" "sorted_runs_for_output rs = Inr ordered"
  shows "(l, r) \<in> set ps \<longleftrightarrow>
    (\<exists>i j. i < j \<and> j < length ordered \<and> ordered ! i = l \<and> ordered ! j = r)
    \<and> (\<exists>k. percent_difference_pair_key l = Inr k \<and> percent_difference_pair_key r = Inr k)
    \<and> \<not> (run_backend l = run_backend r \<and> rccl_sync_mode l = rccl_sync_mode r \<and> result_path l = result_path r)
    \<and> (\<exists>table. percent_difference_rows_for_plot [l, r] = Inr table)"
proof -
  have "later_pairs repeat_pair ordered = Inr ps" using assms by (simp add: percent_difference_pairs_def)
  note mem = later_pairs_mem[OF this, of l r]
  have "repeat_pair l r = Inr True \<longleftrightarrow>
    (\<exists>k. percent_difference_pair_key l = Inr k \<and> percent_difference_pair_key r = Inr k)
    \<and> \<not> (run_backend l = run_backend r \<and> rccl_sync_mode l = rccl_sync_mode r \<and> result_path l = result_path r)
    \<and> (\<exists>table. percent_difference_rows_for_plot [l, r] = Inr table)"
    by (cases "percent_difference_rows_for_plot [l, r]")
      (auto simp: repeat_pair_def bindR_eq_Inr_iff catch_analysis_def split: exn.splits if_splits)
  then show ?thesis unfolding mem by blast
qed

lemma sample_pair:
  "(case percent_difference_pairs [sample_b, sample_a] of Inr ps \<Rightarrow> True | _ \<Rightarrow> False)
   \<and> (case percent_difference_rows_for_plot [sample_a, sample_b] of Inr _ \<Rightarrow> True | _ \<Rightarrow> False)
   \<and> (case (percent_difference_pair_key sample_a, percent_difference_pair_key sample_b) of
        (Inr k, Inr l) \<Rightarrow> k = l | _ \<Rightarrow> False)"
  by code_simp

theorem comparison_pairs_spec_witness:
  "\<exists>ps. percent_difference_pairs [sample_b, sample_a] = Inr ps \<and>
     (sample_a, sample_b) \<in> set ps \<and> (sample_b, sample_a) \<notin> set ps"
proof -
  obtain ps where p: "percent_difference_pairs [sample_b, sample_a] = Inr ps"
    using sample_pair by (auto split: sum.splits)
  note spec = comparison_pairs_spec[OF p sample_order]
  have t: "\<exists>table. percent_difference_rows_for_plot [sample_a, sample_b] = Inr table"
    and k: "\<exists>k. percent_difference_pair_key sample_a = Inr k \<and> percent_difference_pair_key sample_b = Inr k"
    using sample_pair by (auto split: sum.splits)
  have ne: "result_path sample_a \<noteq> result_path sample_b" "sample_a \<noteq> sample_b"
    by (simp_all add: sample_run_def)
  have "(sample_a, sample_b) \<in> set ps"
    unfolding spec using t k ne by (intro conjI exI[of _ 0] exI[of _ 1]) auto
  moreover have "(sample_b, sample_a) \<notin> set ps"
    unfolding spec using ne by (auto simp: less_Suc_eq nth_Cons split: nat.splits)
  ultimately show ?thesis using p by blast
qed


text \<open>An environment for the witnesses: every place writable, no matplotlib, no git.\<close>

definition sample_env :: env where
  "sample_env = \<lparr>env_writable = (\<lambda>_. True), env_matplotlib = None, env_savefig = (\<lambda>_ _ _. []), env_sha256 = (\<lambda>_. ''0''),
     env_argv = [], env_github_sha = None, env_git_head = None, env_now = ''now'', env_python = ''3''\<rparr>"

definition sample_report_args :: report_args where
  "sample_report_args = \<lparr>r_output_dir = ''o'', r_style = ''default'', r_x_axis = ''halo-words'', r_legend = ''best'',
     r_dpi = None, r_baseline = \<lparr>arg_baseline = Some ''smallest-nodes'', arg_baseline_path = None, arg_baseline_nodes = None\<rparr>\<rparr>"

definition sample_io :: io where
  "sample_io = \<lparr>io_files = sample_fs, io_out = [], io_err = []\<rparr>"

lemma run_command_status:
  assumes "run_command e c s = Inr (status, s')"
  shows "status = (if \<exists>args m th a b ra rb table. c = Compare args m True th a b \<and> load_runs (io_files s) [a, b] = Inr [ra, rb]
       \<and> compare_rows ra rb m = Inr table \<and> (\<exists>rw \<in> set table. flt th (percent_of rw)) then 1 else 0)"
proof (cases c)
  case (Compare args m f th a b)
  then obtain rs where rs: "load_runs (io_files s) [a, b] = Inr rs"
    and r: "(case rs of [a, b] \<Rightarrow>
       bindR (compare_rows a b m) (\<lambda>table.
       bindR (show_table e args table [a, b] s) (\<lambda>s'.
       Inr (compare_exit f th table, s')))
   | _ \<Rightarrow> Inl ValueError) = Inr (status, s')"
    using assms by (auto simp: run_command_def command_compare_def bindR_eq_Inr_iff)
  then obtain ra rb table where "rs = [ra, rb]" "compare_rows ra rb m = Inr table" "status = compare_exit f th table"
    by (auto simp: bindR_eq_Inr_iff split: list.splits)
  then show ?thesis using rs Compare by (auto simp: compare_exit_def list_ex_iff)
qed (use assms in \<open>auto simp: run_command_def command_summarize_def command_aggregate_def command_scaling_def
    command_report_def bindR_eq_Inr_iff Let_def\<close>)

text \<open>C26: the status of the process is 2 when the tool refuses with its own error, 1 when an exception
  leaves it, and otherwise 0, unless a comparison was asked to fail on a regression and some row
  exceeds the threshold, which also gives 1.\<close>

theorem exit_status:
  "process_status (analyze_main e c s) = (case run_command e c s of
     Inl (AnalysisError message) \<Rightarrow> 2
   | Inl x \<Rightarrow> 1
   | Inr y \<Rightarrow> if \<exists>args m th a b ra rb table. c = Compare args m True th a b \<and> load_runs (io_files s) [a, b] = Inr [ra, rb]
       \<and> compare_rows ra rb m = Inr table \<and> (\<exists>rw \<in> set table. flt th (percent_of rw)) then 1 else 0)"
proof (cases "run_command e c s")
  case (Inl x)
  then show ?thesis by (cases x) (simp_all add: analyze_main_def)
next
  case (Inr y)
  then obtain status s' where y: "run_command e c s = Inr (status, s')" by (cases y) simp
  show ?thesis unfolding analyze_main_def y sum.case prod.case process_status.simps by (rule run_command_status[OF y])
qed

section \<open>Where the report writes\<close>

text \<open>Outside a directory the same files hold the same text.\<close>

definition same_outside :: "path \<Rightarrow> fs \<Rightarrow> fs \<Rightarrow> bool" where
  "same_outside dir fs fs' \<longleftrightarrow> (\<forall>q t. \<not> prefix dir q \<longrightarrow>
     (map_of fs' q = Some (File t) \<longleftrightarrow> map_of fs q = Some (File t)))"

lemma same_outside_refl [simp]: "same_outside dir fs fs"
  by (simp add: same_outside_def)

lemma same_outside_trans [trans]: "same_outside dir a b \<Longrightarrow> same_outside dir b c \<Longrightarrow> same_outside dir a c"
  by (simp add: same_outside_def)

lemma same_outside_write: "fs_write fs p t = Inr fs' \<Longrightarrow> prefix dir p \<Longrightarrow> same_outside dir fs fs'"
  by (auto simp: same_outside_def fs_write_lookup)

lemma same_outside_mkdirs: "fs_mkdirs fs p = Inr fs' \<Longrightarrow> same_outside dir fs fs'"
  by (simp add: same_outside_def mkdirs_file_iff)

lemma same_outside_make_dir: "make_dir fs p = Inr fs' \<Longrightarrow> same_outside dir fs fs'"
  unfolding same_outside_def
  by (metis fnode.distinct(1) insertE make_dir_keeps make_dir_new not_None_eq option.distinct(1) option.inject singletonD)

lemma foldR_relates:
  assumes "foldR f s xs = Inr s'" "\<And>s. R s s" "\<And>a b c. R a b \<Longrightarrow> R b c \<Longrightarrow> R a c"
    "\<And>s x t. x \<in> set xs \<Longrightarrow> f s x = Inr t \<Longrightarrow> R s t"
  shows "R s s'"
  using assms(1,4)
proof (induction xs arbitrary: s)
  case Nil
  then show ?case using assms(2) by simp
next
  case (Cons x xs)
  then show ?case using assms(3) by (auto simp: bindR_eq_Inr_iff) metis
qed

lemma plain_part_slug:
  "CHR ''/'' \<notin> set a \<Longrightarrow> CHR ''/'' \<notin> set b \<Longrightarrow> 1 < length a \<Longrightarrow> plain_part (a @ b)"
  by (cases a) (auto simp: plain_part_def)

lemma run_slug_no_slash: "run_comparison_slug r = Inr s \<Longrightarrow> CHR ''/'' \<notin> set s"
  using slug.named slug_char_no_slash
  by (fastforce simp: run_comparison_slug_def bindR_eq_Inr_iff list_all_iff lower_slug_char_def)

lemma two_digits_no_slash: "CHR ''/'' \<notin> set (two_digits n)"
proof -
  have "CHR ''/'' \<notin> set (digits_of (int n))"
    by (rule digits_of_no_slash) simp
  then show ?thesis by (auto simp: two_digits_def pad_left_def)
qed

lemma pair_stem_plain: "pair_stem i p = Inr s \<Longrightarrow> CHR ''/'' \<notin> set x \<Longrightarrow> plain_part (s @ x)"
  using run_slug_no_slash two_digits_no_slash
  by (auto simp: pair_stem_def bindR_eq_Inr_iff plain_part_def)

lemma plain_names:
  "plain_part ''summary.csv'' \<and> plain_part ''summary.json'' \<and> plain_part ''summary.md'' \<and> plain_part ''scaling.csv''
   \<and> plain_part ''comparison.csv'' \<and> plain_part ''provenance.json'' \<and> plain_part ''report.md''
   \<and> plain_part ''plots'' \<and> plain_part ''comparisons'' \<and> plain_part ''latency.png'' \<and> plain_part ''effective-rate.png''
   \<and> plain_part ''scaling.png'' \<and> plain_part ''percent-difference.png'' \<and> plain_part ''phase.png''"
  by (simp add: plain_part_def)

lemma same_outside_text: "write_text_in dir fs p = Inr fs' \<Longrightarrow> plain_part (fst p) \<Longrightarrow> same_outside dir fs fs'"
  by (auto simp: write_text_in_def child_plain intro: same_outside_write)

lemma same_outside_texts:
  assumes "foldR (write_text_in dir) fs ps = Inr fs'" "list_all (\<lambda>p. plain_part (fst p)) ps"
  shows "same_outside dir fs fs'"
  using assms(1) by (rule foldR_relates) (use assms(2) in \<open>auto simp: list_all_iff intro: same_outside_trans same_outside_text\<close>)

lemma same_outside_parent: "ensure_output_parent w fs p = Inr fs' \<Longrightarrow> same_outside dir fs fs'"
  by (simp add: same_outside_def ensure_output_parent_files)

lemma same_outside_plot:
  assumes "command_plot e (report_plot_args args kind output rs) s = Inr s'"
    "proper_path output" "output \<noteq> []" "prefix dir output"
  shows "same_outside dir (io_files s) (io_files s')"
proof -
  have "str_path output \<noteq> []" using Path_str_path[OF assms(2,3)] assms(3) by (auto simp: Path_def root_parts_def)
  then have o: "or_str (p_output (report_plot_args args kind output rs)) x = str_path output" for x
    by (simp add: report_plot_args_def or_str_def)
  obtain fs1 fs2 t where "ensure_output_parent (env_writable e) (io_files s) output = Inr fs1"
    "fs_write fs1 output t = Inr fs2" "io_files s' = fs2"
    using assms(1) Path_str_path[OF assms(2,3)] by (auto simp: command_plot_def o bindR_eq_Inr_iff Let_def)
  then show ?thesis using assms(4) same_outside_parent same_outside_write same_outside_trans by blast
qed

lemma same_outside_try_plot:
  assumes "try_plot e args dir (s, sk) (kind, output, rs) = Inr (s', sk')"
    "proper_path output" "output \<noteq> []" "prefix dir output"
  shows "same_outside dir (io_files s) (io_files s')"
  using assms(1) same_outside_plot[OF _ assms(2-4)]
  by (cases "command_plot e (report_plot_args args kind output rs) s")
    (auto simp: try_plot_def catch_analysis_def split: exn.splits)

definition plot_in :: "path \<Rightarrow> string \<times> path \<times> run list \<Rightarrow> bool" where
  "plot_in plots req \<longleftrightarrow> (\<exists>n. plain_part n \<and> fst (snd req) = plots @ [n])"

lemma same_outside_try_plots:
  assumes "foldR (try_plot e args dir) st reqs = Inr st'" "list_all (plot_in (dir @ [''plots''])) reqs" "proper_path dir"
  shows "same_outside dir (io_files (fst st)) (io_files (fst st'))"
  using assms(1)
proof (rule foldR_relates[where R = "\<lambda>a b. same_outside dir (io_files (fst a)) (io_files (fst b))"])
  fix st req st2 assume r: "req \<in> set reqs" "try_plot e args dir st req = Inr st2"
  obtain s sk kind out rs s2 sk2 where e: "st = (s, sk)" "req = (kind, out, rs)" "st2 = (s2, sk2)"
    by (metis prod.exhaust)
  from r(1) assms(2) obtain n where "plain_part n" "out = dir @ [''plots'', n]"
    by (auto simp: list_all_iff plot_in_def e)
  then have "proper_path out" "out \<noteq> []" "prefix dir out"
    using proper_path_append[OF assms(3), of "[''plots'', n]"] plain_names by auto
  then show "same_outside dir (io_files (fst st)) (io_files (fst st2))"
    using same_outside_try_plot r(2) e by simp
qed (auto intro: same_outside_trans)

lemma plot_in_child: "plain_part n \<Longrightarrow> plot_in plots (kind, child plots n, rs)"
  by (simp add: plot_in_def child_plain)

lemma plot_requests_in: "list_all (plot_in plots) (plot_requests plots rs)"
  using plain_names by (simp add: plot_requests_def plot_in_child)

lemma pair_requests_in: "pair_requests plots pairs = Inr reqs \<Longrightarrow> list_all (plot_in plots) reqs"
  unfolding pair_requests_def list_all_iff
  by (auto dest!: traverse_set simp: bindR_eq_Inr_iff intro!: plot_in_child pair_stem_plain)

lemma phase_requests_in: "phase_requests plots rs = Inr reqs \<Longrightarrow> list_all (plot_in plots) reqs"
  unfolding phase_requests_def list_all_iff Let_def
  using plain_names run_slug_no_slash two_digits_no_slash
  by (auto dest!: traverse_set simp: bindR_eq_Inr_iff split: if_splits intro!: plot_in_child) (auto simp: plain_part_def)

lemma same_outside_pairs:
  assumes "foldR (write_pair dir (child dir ''comparisons'')) st ips = Inr st'"
  shows "same_outside dir (fst st) (fst st')"
  using assms
proof (rule foldR_relates[where R = "\<lambda>a b. same_outside dir (fst a) (fst b)"])
  fix st ip st2 assume r: "write_pair dir (child dir ''comparisons'') st ip = Inr st2"
  obtain fs written i p where e: "st = (fs, written)" "ip = (i, p)" by (metis prod.exhaust)
  obtain stem table fs' where "pair_stem i p = Inr stem" "fst st2 = fs'"
    "fs_write fs (child (child dir ''comparisons'') (stem @ ''.csv'')) (rows_to_csv table) = Inr fs'"
    using r by (auto simp: write_pair_def e bindR_eq_Inr_iff Let_def)
  then show "same_outside dir (fst st) (fst st2)"
    using pair_stem_plain[of i p stem "''.csv''"] plain_names
    by (auto simp: e child_plain intro: same_outside_write)
qed (auto intro: same_outside_trans)

lemma same_outside_comparison:
  "report_comparison dir rs fs = Inr (fs', sk) \<Longrightarrow> same_outside dir fs fs'"
proof -
  assume r: "report_comparison dir rs fs = Inr (fs', sk)"
  have w: "same_outside dir fs fs2" if "write_text_in dir fs (''comparison.csv'', t) = Inr fs2" for t fs2
    using that plain_names by (auto intro: same_outside_text)
  consider a b where "rs = [a, b]" | "fs' = fs" using r by (auto simp: report_comparison_def split: list.splits)
  then show ?thesis
  proof cases
    case 1
    then show ?thesis using r w
      by (cases "compare_rows a b False")
        (auto simp: report_comparison_def catch_analysis_def bindR_def split: exn.splits sum.splits)
  qed simp
qed

lemma same_outside_prepare: "prepare_report e dir fs = Inr fs' \<Longrightarrow> same_outside dir fs fs'"
  by (auto simp: prepare_report_def bindR_eq_Inr_iff split: if_splits
      intro: same_outside_trans same_outside_mkdirs same_outside_make_dir)

text \<open>C7: the report writes only below its output directory: every file elsewhere, the inputs
  included, holds afterwards what it held before, and no other file appears.\<close>

theorem report_stays_inside:
  assumes "write_report_directory e args rs s = Inr (s', skipped)"
  shows "same_outside (Path (r_output_dir args)) (io_files s) (io_files s')"
proof -
  let ?dir = "Path (r_output_dir args)" and ?S = "same_outside (Path (r_output_dir args))"
  note step = same_outside_trans[of ?dir]
  obtain ordered fs0 summary fs1 scaling fs2 pairs fs3 sk3 fs4 fs5 w5 st6 reqs7 st7 reqs8 s8 sk8 fs9 fs10 p t where
    0: "prepare_report e ?dir (io_files s) = Inr fs0"
    and 1: "foldR (write_text_in ?dir) fs0 (summary_files summary) = Inr fs1"
    and 2: "write_text_in ?dir fs1 (''scaling.csv'', rows_to_csv scaling) = Inr fs2"
    and 3: "report_comparison ?dir ordered fs2 = Inr (fs3, sk3)"
    and 4: "(if pairs = [] then Inr fs3 else make_dir fs3 (child ?dir ''comparisons'')) = Inr fs4"
    and 5: "foldR (write_pair ?dir (child ?dir ''comparisons'')) (fs4, []) (numbered pairs) = Inr (fs5, w5)"
    and 6: "foldR (try_plot e args ?dir) (s\<lparr>io_files := fs5\<rparr>, sk3) (plot_requests (child ?dir ''plots'') ordered) = Inr st6"
    and 7: "pair_requests (child ?dir ''plots'') pairs = Inr reqs7" "foldR (try_plot e args ?dir) st6 reqs7 = Inr st7"
    and 8: "phase_requests (child ?dir ''plots'') ordered = Inr reqs8" "foldR (try_plot e args ?dir) st7 reqs8 = Inr (s8, sk8)"
    and 9: "write_text_in ?dir (io_files s8) (''provenance.json'', p) = Inr fs9"
      "write_text_in ?dir fs9 (''report.md'', t) = Inr fs10" "io_files s' = fs10"
    using assms by (auto simp: write_report_directory_def bindR_eq_Inr_iff Let_def simp del: foldR.simps)
  have plots: "child ?dir ''plots'' = ?dir @ [''plots'']" using plain_names by (simp add: child_plain)
  have plot: "?S (io_files (fst st)) (io_files (fst st'))" if "foldR (try_plot e args ?dir) st reqs = Inr st'"
    "list_all (plot_in (child ?dir ''plots'')) reqs" for st reqs st'
    using same_outside_try_plots[OF that(1) _ proper_Path] that(2) plots by simp
  have "?S (io_files s) fs1" using same_outside_prepare[OF 0] same_outside_texts[OF 1] plain_names
    by (auto simp: summary_files_def intro: step)
  also have "?S fs1 fs3" using same_outside_text[OF 2] same_outside_comparison[OF 3] plain_names by (auto intro: step)
  also have "?S fs3 fs5" using 4 same_outside_pairs[OF 5] by (auto split: if_splits intro: step same_outside_make_dir)
  also have "?S fs5 (io_files (fst st6))" using plot[OF 6 plot_requests_in] by simp
  also have "?S (io_files (fst st6)) (io_files (fst st7))" by (rule plot[OF 7(2) pair_requests_in[OF 7(1)]])
  also have "?S (io_files (fst st7)) (io_files s8)" using plot[OF 8(2) phase_requests_in[OF 8(1)]] by simp
  also have "?S (io_files s8) (io_files s')"
    using same_outside_text[OF 9(1)] same_outside_text[OF 9(2)] 9(3) plain_names by (auto intro: step)
  finally show ?thesis .
qed

theorem report_stays_inside_witness:
  "\<exists>s' skipped. write_report_directory sample_env sample_report_args [sample_run ''d'' []]
       \<lparr>io_files = [([''k''], File ''kept'')], io_out = [], io_err = []\<rparr> = Inr (s', skipped)
    \<and> map_of (io_files s') [''k''] = Some (File ''kept'')"
proof -
  let ?w = "write_report_directory sample_env sample_report_args [sample_run ''d'' []]
       \<lparr>io_files = [([''k''], File ''kept'')], io_out = [], io_err = []\<rparr>"
  have "\<not> isl ?w" by code_simp
  then obtain s' skipped where w: "?w = Inr (s', skipped)" using not_isl_Inr by (metis surj_pair)
  moreover have "Path (r_output_dir sample_report_args) = [''o'']" by code_simp
  ultimately show ?thesis using report_stays_inside[OF w] by (simp add: same_outside_def)
qed

end
