(* ===== verification/StallRecords.thy ===== *)
theory StallRecords
  imports PathMeta PyCsv PyPath PyStats PyJsonText
begin

text \<open>
  \<^verbatim>\<open>tools/analyze_iteration_stalls.py\<close>, inputs: the records of the timing files,
  the discovery of result directories, and the loaders.  A cell that a short row lacks is
  None, so reading a number from it raises \<^verbatim>\<open>TypeError\<close>.
\<close>

section \<open>Records\<close>

text \<open>\<^verbatim>\<open>SampleKey\<close>: halo size and sample index, ordered in this order.\<close>

type_synonym sample_key = "int \<times> int"
type_synonym iteration_id = "int \<times> int \<times> int"

record sample_info =
  s_key :: sample_key
  s_iterations :: int
  s_count :: int

record iteration_record =
  it_halo :: int
  it_sample :: int
  it_index :: int
  it_seconds :: pyfloat
  it_max_rank :: int
  it_backend :: "string option"
  it_sync_mode :: "string option"
  it_world_size :: int

definition duration_us :: "iteration_record \<Rightarrow> pyfloat" where
  "duration_us r = fmul (it_seconds r) (Fin 1000000)"

record phase_record =
  ph_halo :: int
  ph_sample :: int
  ph_index :: int
  ph_name :: "string option"
  ph_seconds :: pyfloat
  ph_max_rank :: int
  ph_total_seconds :: pyfloat
  ph_total_max_rank :: int
  ph_schema :: "string option"

definition phase_us :: "phase_record \<Rightarrow> pyfloat" where
  "phase_us r = fmul (ph_seconds r) (Fin 1000000)"

record rank_record =
  rk_halo :: int
  rk_sample :: int
  rk_index :: int
  rk_world_rank :: int
  rk_local_rank :: int
  rk_hostname :: "string option"
  rk_device :: int
  rk_row :: int
  rk_col :: int
  rk_local_seconds :: pyfloat
  rk_global_seconds :: pyfloat
  rk_global_rank :: int
  rk_schema :: "string option"
  rk_phases :: "(string \<times> pyfloat) list"

definition local_total_us :: "rank_record \<Rightarrow> pyfloat" where
  "local_total_us r = fmul (rk_local_seconds r) (Fin 1000000)"

definition global_max_us :: "rank_record \<Rightarrow> pyfloat" where
  "global_max_us r = fmul (rk_global_seconds r) (Fin 1000000)"

definition iteration_key :: "iteration_record \<Rightarrow> iteration_id" where
  "iteration_key r = (it_halo r, it_sample r, it_index r)"

definition phase_key :: "phase_record \<Rightarrow> iteration_id" where
  "phase_key r = (ph_halo r, ph_sample r, ph_index r)"

definition rank_event_key :: "rank_record \<Rightarrow> iteration_id" where
  "rank_event_key r = (rk_halo r, rk_sample r, rk_index r)"

section \<open>Result directories\<close>

definition parse_key_value_file :: "fs \<Rightarrow> path \<Rightarrow> (string, string) dict res" where
  "parse_key_value_file fs p = (if \<not> fs_exists fs p then Inr []
     else bindR (fs_text fs p) (\<lambda>text. Inr (foldl add_metadata_line [] (splitlines text))))"

definition normalize_rocm :: "string \<Rightarrow> string" where
  "normalize_rocm value = (let v = strip value in
     if prefix ''rocm-'' v then v else if v \<noteq> [] then ''rocm-'' @ v else [])"

text \<open>Paths that resolve to the same place are kept once; resolving is a parameter.\<close>

fun unique_paths_from :: "(path \<Rightarrow> path) \<Rightarrow> path list \<Rightarrow> path list \<Rightarrow> path list" where
  "unique_paths_from resolve seen [] = []"
| "unique_paths_from resolve seen (p # ps) =
     (if resolve p \<in> set seen then unique_paths_from resolve seen ps
      else p # unique_paths_from resolve (resolve p # seen) ps)"

definition unique_paths :: "(path \<Rightarrow> path) \<Rightarrow> path list \<Rightarrow> path list" where
  "unique_paths resolve ps = unique_paths_from resolve [] ps"

definition bundles_below :: "fs \<Rightarrow> path \<Rightarrow> path list" where
  "bundles_below fs p = sort (map path_parent (fs_rglob fs p ''ghalo.json''))"

definition result_dirs_of :: "fs \<Rightarrow> string \<Rightarrow> path list res" where
  "result_dirs_of fs text = (let p = Path text in
     if fs_exists fs (child p ''ghalo.json'') then Inr [p]
     else if fs_is_dir fs p then Inr (bundles_below fs p)
     else Inl (StallAnalysisError (''input path does not exist: '' @ str_path p)))"

definition result_dirs_from_inputs :: "(path \<Rightarrow> path) \<Rightarrow> fs \<Rightarrow> string list \<Rightarrow> path list res" where
  "result_dirs_from_inputs resolve fs inputs =
     bindR (traverse (result_dirs_of fs) inputs) (\<lambda>found. Inr (unique_paths resolve (concat found)))"

definition discover_result_dirs ::
    "(path \<Rightarrow> path) \<Rightarrow> fs \<Rightarrow> path \<Rightarrow> string \<Rightarrow> string \<Rightarrow> string \<Rightarrow> string \<Rightarrow> path list" where
  "discover_result_dirs resolve fs base_dir sys rocm category label_filter =
     (let base = child (child (child (child base_dir ''results'') sys) (normalize_rocm rocm)) category in
      if \<not> fs_exists fs base then []
      else (let dirs = bundles_below fs base in unique_paths resolve
        (if label_filter = [] then dirs else filter (\<lambda>p. sublist label_filter (path_name p)) dirs)))"

section \<open>Loaders\<close>

definition is_empty_file :: "fs \<Rightarrow> path \<Rightarrow> bool" where
  "is_empty_file fs p \<longleftrightarrow> map_of fs p = Some (File [])"

definition load_sample :: "json \<Rightarrow> sample_info res" where
  "load_sample result =
     bindR (as_obj result) (\<lambda>d.
     bindR (json_int (jget d ''halo_words'' (JInt 0))) (\<lambda>h.
     bindR (json_int (jget d ''sample_index'' (JInt 1))) (\<lambda>i.
     bindR (json_int (jget d ''iterations'' (JInt 0))) (\<lambda>n.
     bindR (json_int (jget d ''sample_count'' (JInt 1))) (\<lambda>c.
     Inr \<lparr>s_key = (h, i), s_iterations = n, s_count = c\<rparr>)))))"

definition sample_key_of :: "json \<Rightarrow> sample_key res" where
  "sample_key_of result =
     bindR (as_obj result) (\<lambda>d.
     bindR (json_int (jget d ''halo_words'' (JInt 0))) (\<lambda>h.
     bindR (json_int (jget d ''sample_index'' (JInt 1))) (\<lambda>i. Inr (h, i))))"

definition add_sample :: "path \<Rightarrow> sample_info list \<Rightarrow> json \<Rightarrow> sample_info list res" where
  "add_sample dir samples result =
     bindR (sample_key_of result) (\<lambda>key.
     if key \<in> set (map s_key samples)
     then Inl (StallAnalysisError (''inconsistent sample metadata in '' @ str_path dir
       @ '': duplicate halo '' @ string_of_int (fst key) @ '' sample '' @ string_of_int (snd key)))
     else bindR (load_sample result) (\<lambda>s. Inr (samples @ [s])))"

definition load_samples :: "fs \<Rightarrow> path \<Rightarrow> (sample_info list \<times> json list) res" where
  "load_samples fs dir = (let p = child dir ''ghalo.json'' in
     if \<not> fs_exists fs p \<or> is_empty_file fs p
     then Inl (StallAnalysisError (''missing or empty ghalo.json: '' @ str_path p))
     else bindR (fs_text fs p) (\<lambda>text.
       bindR (of_option ValueError (json_loads text)) (\<lambda>payload.
       bindR (as_obj payload) (\<lambda>d. case jget d ''results'' JNull of
           JList (x # xs) \<Rightarrow> bindR (foldR (add_sample dir) [] (x # xs))
                                (\<lambda>samples. Inr (sort_key s_key samples, x # xs))
         | _ \<Rightarrow> Inl (StallAnalysisError (''ghalo.json lacks a non-empty results array: '' @ str_path p))))))"

text \<open>Cells of a row: required numbers, and numbers with a default for an empty cell.\<close>

definition row_int :: "csv_row \<Rightarrow> string \<Rightarrow> int res" where
  "row_int row k = (case row_get row k of None \<Rightarrow> Inl TypeError
     | Some s \<Rightarrow> of_option ValueError (py_int s))"

definition row_float :: "csv_row \<Rightarrow> string \<Rightarrow> pyfloat res" where
  "row_float row k = (case row_get row k of None \<Rightarrow> Inl TypeError
     | Some s \<Rightarrow> of_option ValueError (py_float s))"

definition parse_int_cell :: "csv_row \<Rightarrow> string \<Rightarrow> int \<Rightarrow> int res" where
  "parse_int_cell row column def = (let value = or_str (row_get_default row column []) [] in
     if value = [] then Inr def else of_option ValueError (py_int value))"

definition parse_float_cell :: "csv_row \<Rightarrow> string \<Rightarrow> pyfloat res" where
  "parse_float_cell row column = (let value = or_str (row_get_default row column []) [] in
     if value = [] then Inr (Fin 0) else of_option ValueError (py_float value))"

text \<open>The three timing files are loaded alike: a missing or empty file only warns, and a
  header without the required columns is an error.\<close>

definition load_timing_rows ::
    "fs \<Rightarrow> path \<Rightarrow> string \<Rightarrow> string list \<Rightarrow> (csv_row \<Rightarrow> 'r res) \<Rightarrow> ('r list \<times> string list) res" where
  "load_timing_rows fs p what required of_row =
     (if \<not> fs_exists fs p then Inr ([], [''missing '' @ what @ '' file: '' @ str_path p])
      else if is_empty_file fs p then Inr ([], [''empty '' @ what @ '' file: '' @ str_path p])
      else bindR (fs_raw fs p) (\<lambda>text.
        case csv_fieldnames text of
          None \<Rightarrow> Inl (StallAnalysisError (path_name p @ '' missing required columns: '' @ str_path p))
        | Some names \<Rightarrow>
            if names = [] \<or> \<not> set required \<subseteq> set names
            then Inl (StallAnalysisError (path_name p @ '' missing required columns: '' @ str_path p))
            else bindR (traverse of_row (csv_dict_rows text)) (\<lambda>rs. Inr (rs, []))))"

definition iteration_of_row :: "csv_row \<Rightarrow> iteration_record res" where
  "iteration_of_row row =
     bindR (row_int row ''halo_words'') (\<lambda>h.
     bindR (row_int row ''sample_index'') (\<lambda>s.
     bindR (row_int row ''iteration_index'') (\<lambda>i.
     bindR (row_float row ''global_max_iteration_seconds'') (\<lambda>d.
     bindR (row_int row ''max_rank'') (\<lambda>m.
     bindR (parse_int_cell row ''world_size'' 0) (\<lambda>w.
     Inr \<lparr>it_halo = h, it_sample = s, it_index = i, it_seconds = d, it_max_rank = m,
          it_backend = row_get_default row ''backend'' [],
          it_sync_mode = row_get_default row ''rccl_sync_mode'' [], it_world_size = w\<rparr>))))))"

definition ITERATION_COLUMNS :: "string list" where
  "ITERATION_COLUMNS = [''halo_words'', ''sample_index'', ''iteration_index'',
     ''global_max_iteration_seconds'', ''max_rank'', ''backend'', ''rccl_sync_mode'', ''world_size'']"

definition load_iteration_records :: "fs \<Rightarrow> path \<Rightarrow> (iteration_record list \<times> string list) res" where
  "load_iteration_records fs dir =
     load_timing_rows fs (child dir ''iteration-times.csv'') ''iteration timing'' ITERATION_COLUMNS iteration_of_row"

definition phase_of_row :: "csv_row \<Rightarrow> phase_record res" where
  "phase_of_row row =
     bindR (row_int row ''halo_words'') (\<lambda>h.
     bindR (row_int row ''sample_index'') (\<lambda>s.
     bindR (row_int row ''iteration_index'') (\<lambda>i.
     bindR (row_float row ''phase_seconds'') (\<lambda>d.
     bindR (row_int row ''phase_max_rank'') (\<lambda>m.
     bindR (row_float row ''total_iteration_seconds'') (\<lambda>t.
     bindR (row_int row ''total_iteration_max_rank'') (\<lambda>k.
     Inr \<lparr>ph_halo = h, ph_sample = s, ph_index = i, ph_name = row_get row ''phase_name'',
          ph_seconds = d, ph_max_rank = m, ph_total_seconds = t, ph_total_max_rank = k,
          ph_schema = row_get row ''backend_schema''\<rparr>)))))))"

definition PHASE_RECORD_COLUMNS :: "string list" where
  "PHASE_RECORD_COLUMNS = [''halo_words'', ''sample_index'', ''iteration_index'', ''total_iteration_seconds'',
     ''total_iteration_max_rank'', ''backend_schema'', ''phase_name'', ''phase_seconds'', ''phase_max_rank'']"

definition load_phase_records :: "fs \<Rightarrow> path \<Rightarrow> (phase_record list \<times> string list) res" where
  "load_phase_records fs dir =
     load_timing_rows fs (child dir ''iteration-phase-times.csv'') ''iteration phase timing''
       PHASE_RECORD_COLUMNS phase_of_row"

definition PHASE_COLUMNS :: "string list" where
  "PHASE_COLUMNS = [''north_south_communication_seconds'', ''north_south_sync_seconds'',
     ''transpose_copy_seconds'', ''transpose_sync_seconds'', ''east_west_communication_seconds'',
     ''east_west_sync_seconds'', ''north_south_enqueue_seconds'', ''transpose_enqueue_seconds'',
     ''east_west_enqueue_seconds'', ''final_stream_sync_seconds'', ''input_device_copy_seconds'',
     ''north_south_mpi_seconds'', ''transpose_device_copy_seconds'', ''transpose_copy_sync_seconds'',
     ''east_west_mpi_seconds'']"

definition RANK_COLUMNS :: "string list" where
  "RANK_COLUMNS = [''halo_words'', ''sample_index'', ''iteration_index'', ''world_rank'', ''local_rank'',
     ''hostname'', ''selected_hip_device'', ''cart_row'', ''cart_col'', ''local_total_iteration_seconds'',
     ''global_max_iteration_seconds'', ''global_max_iteration_rank'', ''backend_schema'']"

definition rank_of_row :: "csv_row \<Rightarrow> rank_record res" where
  "rank_of_row row =
     bindR (row_int row ''halo_words'') (\<lambda>h.
     bindR (row_int row ''sample_index'') (\<lambda>s.
     bindR (row_int row ''iteration_index'') (\<lambda>i.
     bindR (row_int row ''world_rank'') (\<lambda>w.
     bindR (parse_int_cell row ''local_rank'' (- 1)) (\<lambda>l.
     bindR (parse_int_cell row ''selected_hip_device'' (- 1)) (\<lambda>d.
     bindR (parse_int_cell row ''cart_row'' (- 1)) (\<lambda>cr.
     bindR (parse_int_cell row ''cart_col'' (- 1)) (\<lambda>cc.
     bindR (parse_float_cell row ''local_total_iteration_seconds'') (\<lambda>lt.
     bindR (parse_float_cell row ''global_max_iteration_seconds'') (\<lambda>gt.
     bindR (parse_int_cell row ''global_max_iteration_rank'' (- 1)) (\<lambda>gr.
     bindR (traverse (\<lambda>column. bindR (parse_float_cell row column) (\<lambda>x. Inr (column, x))) PHASE_COLUMNS) (\<lambda>ps.
     Inr \<lparr>rk_halo = h, rk_sample = s, rk_index = i, rk_world_rank = w, rk_local_rank = l,
          rk_hostname = row_get_default row ''hostname'' [], rk_device = d, rk_row = cr, rk_col = cc,
          rk_local_seconds = lt, rk_global_seconds = gt, rk_global_rank = gr,
          rk_schema = row_get_default row ''backend_schema'' [], rk_phases = ps\<rparr>))))))))))))"

definition load_rank_records :: "fs \<Rightarrow> path \<Rightarrow> (rank_record list \<times> string list) res" where
  "load_rank_records fs dir =
     load_timing_rows fs (child dir ''stalled-rank-times.csv'') ''stalled rank timing'' RANK_COLUMNS rank_of_row"

section \<open>Each place once\<close>

lemma unique_paths_from_spec:
  "unique_paths_from resolve seen ps = map ((!) ps)
     (filter (\<lambda>i. resolve (ps ! i) \<notin> set seen \<union> resolve ` set (take i ps)) [0..<length ps])"
proof (induction resolve seen ps rule: unique_paths_from.induct)
  case (2 resolve seen p ps)
  have split: "[0..<length (p # ps)] = 0 # map Suc [0..<length ps]"
    by (simp add: upt_conv_Cons map_Suc_upt del: upt_Suc)
  have up: "map ((!) (p # ps)) (filter P (map Suc js)) = map ((!) ps) (filter (\<lambda>i. P (Suc i)) js)" for P js
    by (induction js) auto
  show ?case
  proof (cases "resolve p \<in> set seen")
    case True
    then have e: "set seen \<union> resolve ` set (take (Suc i) (p # ps)) = set seen \<union> resolve ` set (take i ps)" for i by auto
    show ?thesis using True 2(1) unfolding split by (simp add: up e del: take_Suc_Cons Un_iff)
  next
    case False
    then have e: "set seen \<union> resolve ` set (take (Suc i) (p # ps)) = set (resolve p # seen) \<union> resolve ` set (take i ps)" for i by auto
    show ?thesis using False 2(2) unfolding split by (simp add: up e del: take_Suc_Cons Un_iff)
  qed
qed simp

text \<open>C38: the result directories are analysed once each: of the paths given, in their order, exactly
  those are kept that resolve to a place no earlier path resolves to.\<close>

theorem unique_paths_spec:
  "unique_paths resolve ps = map ((!) ps) (filter (\<lambda>i. resolve (ps ! i) \<notin> resolve ` set (take i ps)) [0..<length ps])"
  unfolding unique_paths_def unique_paths_from_spec by simp

end
