(* ===== verification/StallAnalysis.thy ===== *)
theory StallAnalysis
  imports StallRecords
begin

text \<open>
  \<^verbatim>\<open>tools/analyze_iteration_stalls.py\<close>, the analysis of one case: which samples
  stalled, which phase dominates each stalled iteration, and whether the slow ranks of an
  iteration share a node, a row or a column.  The dictionaries of a breakdown are records
  here; they become dictionaries again where they are written.
\<close>

section \<open>Samples\<close>

fun longest_from :: "nat \<Rightarrow> nat \<Rightarrow> string \<Rightarrow> nat" where
  "longest_from longest cur [] = longest"
| "longest_from longest cur (m # ms) =
     (if m = CHR ''F'' then longest_from (max longest (Suc cur)) (Suc cur) ms
      else longest_from longest 0 ms)"

definition longest_stall_free_sequence :: "string \<Rightarrow> nat" where
  "longest_stall_free_sequence sequence = longest_from 0 0 sequence"

text \<open>\<^verbatim>\<open>math.ceil(literal * n)\<close>: the literal is the nearest double, and so is the
  product.\<close>

definition ceil_scaled :: "rat \<Rightarrow> int \<Rightarrow> int res" where
  "ceil_scaled q n = bindR (int_to_float n) (\<lambda>f. math_ceil (fmul (to_float q) f))"

definition classify_sample :: "int \<Rightarrow> int \<Rightarrow> string res" where
  "classify_sample stalls its =
     (if stalls = 0 then Inr ''none'' else if stalls = 1 then Inr ''isolated''
      else if 0 < its
        then bindR (ceil_scaled (9/10) its) (\<lambda>c. Inr (if c \<le> stalls then ''nearly_all'' else ''multiple''))
      else Inr ''multiple'')"

definition percent :: "int \<Rightarrow> int \<Rightarrow> pyfloat res" where
  "percent numerator denominator =
     (if denominator = 0 then Inr (Fin 0)
      else bindR (int_to_float numerator) (\<lambda>n. bindR (int_to_float denominator) (\<lambda>d.
        fdiv (fmul (Fin 100) n) d)))"

section \<open>Phases\<close>

definition phase_category :: "string \<Rightarrow> string" where
  "phase_category name =
     (if sublist ''sync'' name then ''synchronization/final sync''
      else if sublist ''copy'' name \<or> sublist ''transpose'' name then ''copy/transpose''
      else if sublist ''communication'' name \<or> sublist ''enqueue'' name \<or> sublist ''mpi'' name
        then ''communication/enqueue''
      else ''mixed/unattributed'')"

record phase_event =
  pe_key :: iteration_id
  pe_phase :: string
  pe_us :: pyfloat
  pe_max_rank :: int
  pe_total_us :: pyfloat
  pe_total_max_rank :: int

record phase_summary =
  ps_name :: string
  ps_dominant :: nat
  ps_cumulative_ms :: pyfloat
  ps_median_us :: pyfloat
  ps_max_us :: pyfloat
  ps_max_ranks :: "(int, nat) dict"

text \<open>The order of the tuples \<^verbatim>\<open>(seconds, -max_rank, name)\<close>: equal first components
  are decided by the later ones.\<close>

definition phase_less :: "phase_record \<Rightarrow> phase_record \<Rightarrow> bool" where
  "phase_less a b \<longleftrightarrow> (if feq (ph_seconds a) (ph_seconds b)
     then (- ph_max_rank a, or_str (ph_name a) []) < (- ph_max_rank b, or_str (ph_name b) [])
     else flt (ph_seconds a) (ph_seconds b))"

definition dominant_phase :: "phase_record list \<Rightarrow> phase_record" where
  "dominant_phase rs = max_by phase_less (hd rs) (tl rs)"

definition phase_name_of :: "phase_record \<Rightarrow> string" where
  "phase_name_of r = or_str (ph_name r) []"

definition phase_event_of :: "iteration_id \<times> phase_record list \<Rightarrow> phase_event" where
  "phase_event_of g = (let d = dominant_phase (snd g) in
     \<lparr>pe_key = fst g, pe_phase = phase_name_of d, pe_us = phase_us d, pe_max_rank = ph_max_rank d,
      pe_total_us = fmul (ph_total_seconds d) (Fin 1000000), pe_total_max_rank = ph_total_max_rank d\<rparr>)"

text \<open>The records of known samples that belong to an affected iteration.\<close>

definition check_phase_sample :: "sample_key list \<Rightarrow> phase_record \<Rightarrow> unit res" where
  "check_phase_sample keys r = guardR ((ph_halo r, ph_sample r) \<in> set keys)
     (StallAnalysisError (''iteration phase record references missing sample metadata: halo=''
        @ string_of_int (ph_halo r) @ '' sample='' @ string_of_int (ph_sample r)))"

definition phase_groups ::
    "phase_record list \<Rightarrow> iteration_id list option \<Rightarrow> (iteration_id, phase_record list) dict" where
  "phase_groups rs affected = sorted_items (group_by phase_key
     (case affected of None \<Rightarrow> rs | Some keys \<Rightarrow> filter (\<lambda>r. phase_key r \<in> set keys) rs))"

definition phase_summary_of :: "string list \<Rightarrow> string \<times> phase_record list \<Rightarrow> phase_summary res" where
  "phase_summary_of dominant g =
     bindR (fdiv (py_sum (map phase_us (snd g))) (Fin 1000)) (\<lambda>ms.
     bindR (median (map phase_us (snd g))) (\<lambda>med.
     Inr \<lparr>ps_name = fst g, ps_dominant = count_list dominant (fst g), ps_cumulative_ms = ms,
          ps_median_us = med, ps_max_us = py_max (map phase_us (snd g)),
          ps_max_ranks = sorted_items (counter (map ph_max_rank (snd g)))\<rparr>))"

text \<open>\<^verbatim>\<open>Counter.most_common(1)\<close>: the first of the most frequent.\<close>

definition most_common :: "('a, nat) dict \<Rightarrow> 'a \<times> nat" where
  "most_common d = max_by (\<lambda>m x. snd m < snd x) (hd d) (tl d)"

definition stall_cause :: "string list \<Rightarrow> string" where
  "stall_cause categories = (let (category, n) = most_common (counter categories) in
     if length categories < 2 * n then category else ''mixed/unattributed'')"

definition analyze_phase_records ::
    "phase_record list \<Rightarrow> sample_key list \<Rightarrow> iteration_id list option
     \<Rightarrow> (nat \<times> phase_summary list \<times> phase_event list \<times> string) res" where
  "analyze_phase_records rs keys affected =
     bindR (traverse (check_phase_sample keys) rs) (\<lambda>_.
     let groups = phase_groups rs affected; kept = concat (map snd groups);
         events = map phase_event_of groups in
     if list_ex (\<lambda>r. ph_name r = None) kept then Inl TypeError
     else bindR (traverse (phase_summary_of (map pe_phase events)) (sorted_items (group_by phase_name_of kept)))
       (\<lambda>summaries.
       if groups = [] then Inr (0, [], [], ''mixed/unattributed'')
       else Inr (length groups, summaries, events, stall_cause (map (\<lambda>e. phase_category (pe_phase e)) events))))"

section \<open>Ranks\<close>

definition PHASE_ALIASES :: "(string \<times> string) list" where
  "PHASE_ALIASES = map (\<lambda>n. (n, n @ ''_seconds''))
     [''north_south_communication'', ''north_south_sync'', ''transpose_copy'', ''transpose_sync'',
      ''east_west_communication'', ''east_west_sync'', ''north_south_enqueue'', ''transpose_enqueue'',
      ''east_west_enqueue'', ''final_stream_sync'', ''input_device_copy'', ''north_south_mpi'',
      ''transpose_device_copy'', ''transpose_copy_sync'', ''east_west_mpi'']"

definition local_phase_value :: "rank_record \<Rightarrow> string \<Rightarrow> pyfloat" where
  "local_phase_value r name = dict_get (rk_phases r) (dict_get PHASE_ALIASES name name) (Fin 0)"

record rank_event =
  re_key :: iteration_id
  re_class :: string
  re_world_size :: nat
  re_global_us :: pyfloat
  re_global_rank :: int
  re_min_us :: pyfloat
  re_median_us :: pyfloat
  re_mean_us :: pyfloat
  re_max_us :: pyfloat
  re_cv :: pyfloat
  re_ge50 :: nat
  re_ge80 :: nat
  re_ge95 :: nat
  re_pct80 :: pyfloat
  re_nodes :: "string option list"
  re_rows :: "int list"
  re_cols :: "int list"
  re_phase :: string
  re_phase_rank :: "int option"
  re_matches :: bool
  re_phase_values :: "(rank_record \<times> pyfloat) list"

definition slow_ranks :: "rat \<Rightarrow> pyfloat \<Rightarrow> rank_record list \<Rightarrow> rank_record list" where
  "slow_ranks q global rs = filter (\<lambda>r. fle (fmul global (to_float q)) (local_total_us r)) rs"

text \<open>Where the slow ranks of an iteration are.\<close>

definition classify_ranks :: "rank_record list \<Rightarrow> nat \<Rightarrow> string res" where
  "classify_ranks slow world = bindR (ceil_scaled (4/5) (int world)) (\<lambda>c.
     Inr (if c \<le> int (length slow) then ''collective-wide''
          else if length slow \<le> 2 then ''rank-localized''
          else if card (set (map rk_hostname slow)) = 1 then ''node-localized''
          else if card (set (map rk_row slow)) = 1 then ''row-localized''
          else if card (set (map rk_col slow)) = 1 then ''column-localized''
          else ''mixed''))"

text \<open>Sorting host names raises when a missing one is compared.\<close>

definition sorted_hosts :: "string option list \<Rightarrow> string option list res" where
  "sorted_hosts hosts = (let u = remdups hosts in
     if None \<in> set u \<and> 1 < length u then Inl TypeError
     else Inr (sort_key (\<lambda>h. or_str h []) u))"

definition coefficient_of_variation :: "pyfloat list \<Rightarrow> pyfloat res" where
  "coefficient_of_variation xs = bindR (fmean xs) (\<lambda>m.
     if flt (Fin 0) m then bindR (pstdev xs) (\<lambda>s. fdiv s m) else Inr (Fin 0))"

definition rank_event_of :: "phase_event list \<Rightarrow> iteration_id \<times> rank_record list \<Rightarrow> rank_event res" where
  "rank_event_of phases g =
     (let rs = sort_key rk_world_rank (snd g); n = length rs;
          global = py_max (map global_max_us rs); locals = map local_total_us rs;
          slow = slow_ranks (4/5) global rs;
          info = map_of (map (\<lambda>p. (pe_key p, p)) (rev phases)) (fst g);
          phase = (case info of None \<Rightarrow> [] | Some p \<Rightarrow> pe_phase p);
          phase_rank = map_option pe_max_rank info;
          total_rank = rk_global_rank (hd rs)
      in bindR (classify_ranks slow n) (\<lambda>cls.
         bindR (median locals) (\<lambda>med.
         bindR (fmean locals) (\<lambda>mean.
         bindR (coefficient_of_variation locals) (\<lambda>cv.
         bindR (percent (int (length slow)) (int n)) (\<lambda>pct.
         bindR (sorted_hosts (map rk_hostname slow)) (\<lambda>hosts.
         Inr \<lparr>re_key = fst g, re_class = cls, re_world_size = n, re_global_us = global,
              re_global_rank = total_rank, re_min_us = py_min locals, re_median_us = med,
              re_mean_us = mean, re_max_us = py_max locals, re_cv = cv,
              re_ge50 = length (slow_ranks (1/2) global rs), re_ge80 = length slow,
              re_ge95 = length (slow_ranks (19/20) global rs), re_pct80 = pct, re_nodes = hosts,
              re_rows = sort (remdups (map rk_row slow)), re_cols = sort (remdups (map rk_col slow)),
              re_phase = phase, re_phase_rank = phase_rank, re_matches = (phase_rank = Some total_rank),
              re_phase_values = (if phase = [] then []
                else map (\<lambda>r. (r, fmul (local_phase_value r phase) (Fin 1000000))) rs)\<rparr>)))))))"

definition rank_key :: "rank_record \<Rightarrow> int \<times> int \<times> int \<times> int" where
  "rank_key r = (rk_halo r, rk_sample r, rk_index r, rk_world_rank r)"

fun first_repeat :: "'a list \<Rightarrow> 'a list \<Rightarrow> 'a option" where
  "first_repeat seen [] = None"
| "first_repeat seen (x # xs) = (if x \<in> set seen then Some x else first_repeat (x # seen) xs)"

definition rank_key_text :: "int \<times> int \<times> int \<times> int \<Rightarrow> string" where
  "rank_key_text k = (case k of (h, s, i, w) \<Rightarrow>
     ''('' @ join '', '' (map string_of_int [h, s, i, w]) @ '')'')"

record rank_analysis =
  ra_events :: "rank_event list"
  ra_classes :: "(string, nat) dict"
  ra_ranks :: "(int, nat) dict"
  ra_nodes :: "(string, nat) dict"
  ra_gpus :: "(string, nat) dict"
  ra_rows :: "(int, nat) dict"
  ra_cols :: "(int, nat) dict"
  ra_matches :: nat
  ra_mismatches :: nat
  ra_warnings :: "string list"

definition host_or_unknown :: "rank_record \<Rightarrow> string" where
  "host_or_unknown r = or_str (rk_hostname r) ''unknown''"

definition slow_of_group :: "iteration_id \<times> rank_record list \<Rightarrow> rank_record list" where
  "slow_of_group g = (let rs = sort_key rk_world_rank (snd g)
     in slow_ranks (4/5) (py_max (map global_max_us rs)) rs)"

definition missing_sample_warnings :: "string \<Rightarrow> sample_key list \<Rightarrow> sample_key list \<Rightarrow> string list" where
  "missing_sample_warnings what keys refs = map (\<lambda>(h, s). what
     @ '' record references missing sample metadata: halo='' @ string_of_int h
     @ '' sample='' @ string_of_int s) (filter (\<lambda>k. k \<notin> set keys) refs)"

definition analyze_rank_records ::
    "rank_record list \<Rightarrow> sample_key list \<Rightarrow> phase_event list \<Rightarrow> rank_analysis res" where
  "analyze_rank_records rs keys phases = (case first_repeat [] (map rank_key rs) of
     Some k \<Rightarrow> Inl (StallAnalysisError (''duplicate stalled rank row for halo/sample/iteration/rank: ''
       @ rank_key_text k))
   | None \<Rightarrow>
      (let groups = sorted_items (group_by rank_event_key rs); slow = concat (map slow_of_group groups) in
       bindR (traverse (rank_event_of phases) groups) (\<lambda>events.
       Inr \<lparr>ra_events = events,
            ra_classes = sorted_items (counter (map re_class events)),
            ra_ranks = sorted_items (counter (map rk_world_rank slow)),
            ra_nodes = sorted_items (counter (map host_or_unknown slow)),
            ra_gpus = sorted_items (counter (map (\<lambda>r. host_or_unknown r @ '':''
               @ string_of_int (rk_device r)) slow)),
            ra_rows = sorted_items (counter (map rk_row slow)),
            ra_cols = sorted_items (counter (map rk_col slow)),
            ra_matches = length (filter re_matches events),
            ra_mismatches = length (filter (\<lambda>e. re_phase_rank e \<noteq> None \<and> \<not> re_matches e) events),
            ra_warnings = missing_sample_warnings ''stalled rank'' keys
               (map (\<lambda>r. (rk_halo r, rk_sample r)) rs)\<rparr>)))"

section \<open>The longest stretch without a stall\<close>

lemma prefix_replicate_Suc:
  "prefix (replicate n c) (d # s) \<longleftrightarrow> n = 0 \<or> (\<exists>k. n = Suc k \<and> c = d \<and> prefix (replicate k c) s)"
  by (cases n) auto

lemma sublist_replicate_le:
  assumes "sublist (replicate k c) s" "n \<le> k"
  shows "sublist (replicate n c) s"
proof -
  have "replicate k c = replicate n c @ replicate (k - n) c" using assms(2) by (simp flip: replicate_add)
  then have "sublist (replicate n c) (replicate k c)" by simp
  then show ?thesis using assms(1) sublist_order.order_trans by blast
qed

lemma blocks_join:
  "K1 = (X \<or> K2) \<Longrightarrow> S1 = (S \<or> nz \<and> B) \<Longrightarrow> (B \<Longrightarrow> X \<or> K2) \<Longrightarrow> L = ((l \<or> X) \<or> S \<or> K2)
   \<Longrightarrow> L = (l \<or> S1 \<or> K1)"
  by blast

lemma longest_from_spec:
  "n \<le> longest_from l c s \<longleftrightarrow> n \<le> l \<or> sublist (replicate n (CHR ''F'')) s
     \<or> (\<exists>k > 0. prefix (replicate k (CHR ''F'')) s \<and> n \<le> c + k)"
proof (induction l c s rule: longest_from.induct)
  case (1 l c)
  then show ?case by auto
next
  case (2 l c m s)
  show ?case
  proof (cases "m = CHR ''F''")
    case True
    have "(\<exists>k > 0. prefix (replicate k m) (m # s) \<and> n \<le> c + k)
        \<longleftrightarrow> n \<le> Suc c \<or> (\<exists>k > 0. prefix (replicate k m) s \<and> n \<le> Suc c + k)" (is "?l \<longleftrightarrow> ?r")
    proof
      assume ?l
      then obtain j where "prefix (replicate j m) s" "n \<le> c + Suc j" by (auto simp: prefix_replicate_Suc)
      then show ?r by (cases j) auto
    next
      assume ?r
      then show ?l
      proof
        assume "n \<le> Suc c"
        then show ?l by (intro exI[of _ 1]) auto
      next
        assume "\<exists>k > 0. prefix (replicate k m) s \<and> n \<le> Suc c + k"
        then obtain k where "prefix (replicate k m) s" "n \<le> Suc c + k" by blast
        then show ?l by (intro exI[of _ "Suc k"]) auto
      qed
    qed
    moreover have "sublist (replicate n m) (m # s)
        \<longleftrightarrow> sublist (replicate n m) s \<or> n \<noteq> 0 \<and> prefix (replicate (n - 1) m) s"
      by (cases n) (auto simp: sublist_Cons_right)
    moreover have "n \<le> Suc c \<or> (\<exists>k > 0. prefix (replicate k m) s \<and> n \<le> Suc c + k)"
      if "prefix (replicate (n - 1) m) s"
    proof (cases "n \<le> 1")
      case False
      then have "0 < n - 1 \<and> n \<le> Suc c + (n - 1)" by simp
      then show ?thesis using that by blast
    qed simp
    moreover note 2(1)[OF True]
    ultimately show ?thesis
      unfolding longest_from.simps True[symmetric] le_max_iff_disj simp_thms(6) if_True by (rule blocks_join)
  next
    case False
    have "sublist (replicate n (CHR ''F'')) s" if "prefix (replicate k (CHR ''F'')) s" "n \<le> k" for k
      by (rule sublist_replicate_le[OF prefix_imp_sublist]) (use that in simp_all)
    then show ?thesis using 2(2)[OF False] False by (auto simp: sublist_Cons_right prefix_replicate_Suc)
  qed
qed

lemma longest_free_iff:
  "n \<le> longest_stall_free_sequence s \<longleftrightarrow> sublist (replicate n (CHR ''F'')) s"
proof -
  have "n \<le> longest_stall_free_sequence s \<longleftrightarrow> n = 0 \<or> sublist (replicate n (CHR ''F'')) s
      \<or> (\<exists>k > 0. prefix (replicate k (CHR ''F'')) s \<and> n \<le> k)"
    by (simp add: longest_stall_free_sequence_def longest_from_spec)
  moreover have "sublist (replicate n (CHR ''F'')) s" if "prefix (replicate k (CHR ''F'')) s" "n \<le> k" for k
    by (rule sublist_replicate_le[OF prefix_imp_sublist]) (use that in simp_all)
  moreover have "n = 0 \<Longrightarrow> sublist (replicate n (CHR ''F'')) s" by simp
  ultimately show ?thesis by blast
qed

text \<open>C22: the longest stall-free sequence is the length of the longest block of consecutive samples
  without a stall: a block of \<open>n\<close> such samples occurs exactly when \<open>n\<close> does not exceed it.\<close>

theorem longest_stall_free_is_maximal:
  "n \<le> longest_stall_free_sequence s \<longleftrightarrow> sublist (replicate n (CHR ''F'')) s"
  by (rule longest_free_iff)

section \<open>Thresholds in binary64\<close>

lemma to_float_nine_tenths: "to_float (9/10) = Fin (of_int 8106479329266893 / 2 ^ 53)"
  by (rule to_float_in_binade[of _ "9/10 * 2 ^ 53"]) simp_all

lemma to_float_four_fifths: "to_float (4/5) = Fin (of_int 7205759403792794 / 2 ^ 53)"
  by (rule to_float_in_binade[of _ "4/5 * 2 ^ 53"]) simp_all

lemma ceil_scaled_exact:
  assumes q: "q = 9/10 \<or> q = 4/5" and n: "0 \<le> n" "n \<le> 2 ^ 48"
  shows "ceil_scaled q n = Inr \<lceil>q * of_int n\<rceil>"
proof (cases "n = 0")
  case True
  obtain x where "to_float q = Fin x" using q to_float_nine_tenths to_float_four_fifths by blast
  then show ?thesis using True to_float_of_int[of 0] by (simp add: ceil_scaled_def int_to_float_small fmul_def)
next
  case False
  have i: "int_to_float n = Inr (Fin (of_int n))" using n by (intro int_to_float_small) simp
  have "\<exists>d. to_float q = Fin (q * (1 + d)) \<and> 0 \<le> d \<and> d \<le> 1 / 2 ^ 54"
    using q
  proof
    assume q9: "q = 9/10"
    show ?thesis unfolding q9 to_float_nine_tenths by (intro exI[of _ "2 / (9 * 2 ^ 53)"]) simp
  next
    assume q8: "q = 4/5"
    show ?thesis unfolding q8 to_float_four_fifths by (intro exI[of _ "2 / (4 * 2 ^ 53)"]) simp
  qed
  then obtain d where d: "to_float q = Fin (q * (1 + d))" "0 \<le> d" "d \<le> 1 / 2 ^ 54" by blast
  let ?t = "q * of_int n"
  have nr: "(0::rat) < of_int n" "(of_int n :: rat) \<le> 2 ^ 48"
    using n False of_int_le_iff[of n "2 ^ 48", where 'a = rat] by simp_all
  have "0 < q" "q \<le> 1" using q by auto
  then have t: "0 < ?t" "?t \<le> 2 ^ 48" using nr mult_mono[of q 1 "of_int n" "2 ^ 48"] by simp_all
  have p: "\<exists>p. 10 * ?t = of_int p"
    using q by (auto intro: exI[of _ "9 * n"] exI[of _ "8 * n"])
  then have c: "\<lceil>rnd64 (?t * (1 + d))\<rceil> = \<lceil>?t\<rceil>" using ceil_just_above[OF t _ d(2,3)] by blast
  have "?t * (1 + d) \<le> 2 ^ 48 * 2" using t d by (intro mult_mono) auto
  then have "?t * (1 + d) \<le> of_int (2 ^ 49)" by simp
  moreover have "float64 (of_int (2 ^ 49))" by (rule float64_of_int) simp
  ultimately have "rnd64 (?t * (1 + d)) \<le> of_int (2 ^ 49)" by (rule b64.rnd_le)
  moreover have "0 \<le> rnd64 (?t * (1 + d))" using t d by (intro rnd64_nonneg) simp
  moreover have "(of_int (2 ^ 49) :: rat) < 2 ^ 1024" using power_strict_increasing[of 49 1024 "2 :: rat"] by simp
  ultimately have "\<bar>rnd64 (?t * (1 + d))\<bar> < 2 ^ 1024" unfolding abs_less_iff by linarith
  then have "fmul (to_float q) (Fin (of_int n)) = Fin (rnd64 (?t * (1 + d)))"
    using to_float_Fin by (simp add: d fmul_def mult.commute mult.left_commute)
  then show ?thesis by (simp add: ceil_scaled_def i c)
qed

text \<open>C21: a sample is called nearly all slow exactly when at least nine tenths of its iterations
  stalled: up to \<open>2 ^ 48\<close> iterations the rounding of the threshold changes no classification.\<close>

theorem classify_sample_exact:
  assumes "its \<le> 2 ^ 48"
  shows "classify_sample stalls its = Inr
    (if stalls = 0 then ''none'' else if stalls = 1 then ''isolated''
     else if 0 < its \<and> 9 * its \<le> 10 * stalls then ''nearly_all'' else ''multiple'')"
proof -
  have "\<lceil>9 / 10 * (of_int its :: rat)\<rceil> \<le> stalls \<longleftrightarrow> 9 * its \<le> 10 * stalls"
  proof -
    have "\<lceil>9 / 10 * (of_int its :: rat)\<rceil> \<le> stalls \<longleftrightarrow> 9 * (of_int its :: rat) \<le> 10 * of_int stalls"
      by (simp add: ceiling_le_iff mult.commute divide_le_eq)
    also have "\<dots> \<longleftrightarrow> of_int (9 * its) \<le> (of_int (10 * stalls) :: rat)" by simp
    finally show ?thesis unfolding of_int_le_iff .
  qed
  then show ?thesis using ceil_scaled_exact[of "9/10" its] assms by (simp add: classify_sample_def)
qed

theorem classify_sample_exact_witness:
  "classify_sample 9 10 = Inr ''nearly_all'' \<and> classify_sample 8 10 = Inr ''multiple''"
  using classify_sample_exact[of 10 9] classify_sample_exact[of 10 8] by simp

text \<open>The percentage in binary64, compared with an integer percentage.\<close>

lemma percent_value:
  assumes "0 \<le> n" "n \<le> 2 ^ 46" "0 < d" "d \<le> 2 ^ 46"
  shows "percent n d = Inr (Fin (rnd64 (of_int (100 * n) / of_int d)))"
proof -
  let ?x = "of_int (100 * n) / of_int d :: rat"
  have f: "to_float (of_int (100 * n)) = Fin (of_int (100 * n))"
    using assms by (intro to_float_of_int) simp
  have i: "int_to_float n = Inr (Fin (of_int n))" "int_to_float d = Inr (Fin (of_int d))"
    using assms by (auto intro!: int_to_float_small)
  have d: "(1::rat) \<le> of_int d" using assms(3) by simp
  have "100 * n \<le> 2 ^ 53" using assms(2) by simp
  then have "(of_int (100 * n) :: rat) \<le> of_int (2 ^ 53)" unfolding of_int_le_iff .
  also have "\<dots> \<le> of_int (2 ^ 53) * of_int d" using d by (simp add: mult_le_cancel_left1)
  finally have x: "0 \<le> ?x" "?x \<le> of_int (2 ^ 53)" using assms d by (simp_all add: pos_divide_le_eq)
  have w: "wf_float (Fin (of_int 0))" "wf_float (Fin (of_int (2 ^ 53)))"
    by (rule wf_float_int, simp)+
  have "to_float ?x = Fin (rnd64 ?x)" using to_float_between[OF w] x by simp
  then show ?thesis using f assms d by (simp add: percent_def i fmul_def fdiv_def)
qed

text \<open>C25: for counts up to \<open>2 ^ 46\<close> the percentage is defined and on the right side of its two
  landmarks, although it is computed in floating point: it is never negative and is 0 only for an
  empty part, it is below 100 exactly for a part smaller than the whole, 100 exactly for the whole,
  and above 100 exactly for a count larger than what it is divided by.\<close>

theorem percent_in_range:
  assumes "0 \<le> n" "n \<le> 2 ^ 46" "0 < d" "d \<le> 2 ^ 46"
  shows "\<exists>p. percent n d = Inr (Fin p) \<and> 0 \<le> p \<and> (p = 0 \<longleftrightarrow> n = 0)
    \<and> (p < 100 \<longleftrightarrow> n < d) \<and> (p = 100 \<longleftrightarrow> n = d) \<and> (100 < p \<longleftrightarrow> d < n)"
proof -
  let ?x = "of_int (100 * n) / of_int d :: rat"
  have d: "(0::rat) < of_int d" "(of_int d :: rat) \<le> 2 ^ 46"
    using assms of_int_le_iff[of d "2 ^ 46", where 'a = rat] by simp_all
  have less: "rnd64 ?x < 100" if "n < d"
  proof -
    have "100 * n \<le> 100 * (d - 1)" using that by simp
    then have "(of_int (100 * n) :: rat) \<le> of_int (100 * (d - 1))" unfolding of_int_le_iff .
    then have "?x \<le> of_int (100 * (d - 1)) / of_int d" using d by (intro divide_right_mono) simp_all
    also have "\<dots> = 100 - 100 / of_int d" using d by (simp add: field_simps)
    also have "\<dots> \<le> 100 - 100 / 2 ^ 46" using d by (intro diff_left_mono divide_left_mono) simp_all
    also have "\<dots> \<le> of_int (100 * 2 ^ 46 - 1) / 2 ^ 46" by simp
    finally have "rnd64 ?x \<le> of_int (100 * 2 ^ 46 - 1) / 2 ^ 46"
      by (rule b64.rnd_le) (rule float64_dyadic, simp_all)
    then show ?thesis by simp
  qed
  have more: "100 < rnd64 ?x" if "d < n"
  proof -
    have "100 * (d + 1) \<le> 100 * n" using that by simp
    then have "(of_int (100 * (d + 1)) :: rat) \<le> of_int (100 * n)" unfolding of_int_le_iff .
    then have "of_int (100 * (d + 1)) / of_int d \<le> ?x" using d by (intro divide_right_mono) simp_all
    moreover have "of_int (100 * (d + 1)) / of_int d = 100 + 100 / (of_int d :: rat)" using d by (simp add: field_simps)
    moreover have "(100::rat) / 2 ^ 46 \<le> 100 / of_int d" using d by (intro divide_left_mono) simp_all
    ultimately have "of_int (100 * 2 ^ 46 + 1) / 2 ^ 46 \<le> ?x" by simp
    then have "of_int (100 * 2 ^ 46 + 1) / 2 ^ 46 \<le> rnd64 ?x"
      by (rule b64.rnd_ge) (rule float64_dyadic, simp_all)
    then show ?thesis by (rule less_le_trans[rotated]) simp
  qed
  have eq: "rnd64 ?x = 100" if "n = d" using that d b64.rnd_rep[of "of_int 100"] float64_of_int[of 100] by simp
  have pos: "0 < rnd64 ?x" if "n \<noteq> 0"
  proof -
    have "(of_int 1 :: rat) \<le> of_int (100 * n)" unfolding of_int_le_iff using that assms(1) by simp
    then have "1 / 2 ^ 46 \<le> ?x" using d by (intro frac_le) simp_all
    then have "of_int 1 / 2 ^ 46 \<le> rnd64 ?x" using float64_dyadic[of 1 46] by (intro b64.rnd_ge) simp_all
    then show ?thesis by (rule less_le_trans[rotated]) simp
  qed
  have zero: "rnd64 ?x = 0" if "n = 0" using that by simp
  define p where "p = rnd64 ?x"
  have z: "(0 \<le> p) \<and> (p = 0 \<longleftrightarrow> n = 0)" using pos zero unfolding p_def[symmetric] by (cases "n = 0") auto
  have "(p < 100 \<longleftrightarrow> n < d) \<and> (p = 100 \<longleftrightarrow> n = d) \<and> (100 < p \<longleftrightarrow> d < n)"
    using less more eq unfolding p_def[symmetric] by (cases n d rule: linorder_cases) auto
  then show ?thesis using z percent_value[OF assms] unfolding p_def[symmetric] by blast
qed

theorem percent_in_range_witness:
  "\<exists>p q. percent 1 3 = Inr (Fin p) \<and> 0 < p \<and> p < 100 \<and> percent 4 3 = Inr (Fin q) \<and> 100 < q"
  using percent_in_range[of 1 3] percent_in_range[of 4 3] by (auto simp: order_less_le)

section \<open>Phases\<close>

lemma count_list_filter: "count_list xs k = length (filter (\<lambda>x. x = k) xs)"
  by (induction xs) auto

text \<open>C23: the cause of the stalls is a category exactly when more than half of the iterations with
  phase data are dominated by a phase of it.\<close>

theorem stall_cause_is_majority:
  assumes "categories \<noteq> []" "c \<noteq> ''mixed/unattributed''"
  shows "stall_cause categories = c \<longleftrightarrow> length categories < 2 * count_list categories c"
proof -
  let ?d = "counter categories"
  obtain k n where kn: "most_common ?d = (k, n)" by fastforce
  have ne: "?d \<noteq> []" using assms(1) keys_counter[of categories] by (metis list.map_disc_iff uniq_eq_Nil_iff)
  then have d: "hd ?d # tl ?d = ?d" by simp
  have "(k, n) \<in> set ?d" using max_by_mem[of _ "hd ?d" "tl ?d"] kn d by (metis most_common_def)
  then have n: "n = count_list categories k" using counter_memD by fastforce
  have max: "\<forall>x \<in> set ?d. snd x \<le> n"
    using max_by_bound[of "\<lambda>m x. snd m < snd x" "hd ?d" "tl ?d"] kn unfolding d most_common_def by fastforce
  have le: "count_list categories j \<le> n" for j
  proof (cases "j \<in> set categories")
    case True
    then have "(j, count_list categories j) \<in> set ?d" by (simp add: look_counter map_of_SomeD)
    then show ?thesis using max by fastforce
  qed (simp add: count_list_0_iff)
  have two: "count_list categories k + count_list categories j \<le> length categories" if "j \<noteq> k" for j
  proof -
    have "count_list categories k + count_list categories j
        = length (filter (\<lambda>x. x = k) categories) + length (filter (\<lambda>x. x = j) categories)"
      by (simp add: count_list_filter)
    also have "\<dots> \<le> length (filter (\<lambda>x. x = k) categories) + length (filter (\<lambda>x. \<not> x = k) categories)"
      using that by (intro add_left_mono) (induction categories, auto)
    also have "\<dots> = length categories" by (rule sum_length_filter_compl)
    finally show ?thesis .
  qed
  have "stall_cause categories = (if length categories < 2 * n then k else ''mixed/unattributed'')"
    by (simp add: stall_cause_def kn)
  then show ?thesis using assms(2) n le[of c] two[of c] by (cases "c = k") auto
qed

theorem stall_cause_is_majority_witness:
  "stall_cause [''copy/transpose'', ''synchronization/final sync'', ''copy/transpose''] = ''copy/transpose''"
  using stall_cause_is_majority[of "[''copy/transpose'', ''synchronization/final sync'', ''copy/transpose'']" "''copy/transpose''"]
  by simp

text \<open>Without NaN the dominant phase is a maximum of a linear order.\<close>

definition phase_rank :: "phase_record \<Rightarrow> pyfloat \<times> int \<times> string" where
  "phase_rank r = (ph_seconds r, - ph_max_rank r, phase_name_of r)"

lemma phase_less_iff:
  "ph_seconds a \<noteq> NaN \<Longrightarrow> ph_seconds b \<noteq> NaN \<Longrightarrow> phase_less a b \<longleftrightarrow> phase_rank a < phase_rank b"
  by (auto simp: phase_less_def phase_rank_def phase_name_of_def feq_def flt_iff_less)

lemma dominant_phase_max:
  assumes "rs \<noteq> []" "\<forall>r \<in> set rs. ph_seconds r \<noteq> NaN"
  shows "dominant_phase rs \<in> set rs \<and> (\<forall>r \<in> set rs. ph_seconds r \<le> ph_seconds (dominant_phase rs))"
proof -
  have rs: "hd rs # tl rs = rs" using assms(1) by simp
  have "dominant_phase rs = max_by (\<lambda>a b. phase_rank a < phase_rank b) (hd rs) (tl rs)"
    unfolding dominant_phase_def by (rule max_by_cong) (use assms(2) rs in \<open>auto simp: phase_less_iff\<close>)
  moreover have "\<forall>r \<in> set (hd rs # tl rs).
      \<not> phase_rank (max_by (\<lambda>a b. phase_rank a < phase_rank b) (hd rs) (tl rs)) < phase_rank r"
    by (rule max_by_bound) auto
  ultimately have nl: "\<forall>r \<in> set rs. \<not> phase_rank (dominant_phase rs) < phase_rank r" unfolding rs by simp
  have "ph_seconds r \<le> ph_seconds (dominant_phase rs)" if "r \<in> set rs" for r
  proof (rule ccontr)
    assume "\<not> ph_seconds r \<le> ph_seconds (dominant_phase rs)"
    then have "phase_rank (dominant_phase rs) < phase_rank r" by (simp add: phase_rank_def not_le)
    then show False using nl that by blast
  qed
  then show ?thesis using max_by_mem[of phase_less "hd rs" "tl rs"] unfolding rs dominant_phase_def by simp
qed

definition phase_kept :: "iteration_id list option \<Rightarrow> phase_record \<Rightarrow> bool" where
  "phase_kept affected r = (case affected of None \<Rightarrow> True | Some ks \<Rightarrow> phase_key r \<in> set ks)"

lemma phase_groups_alt: "phase_groups rs affected = sorted_items (group_by phase_key (filter (phase_kept affected) rs))"
proof -
  have "phase_kept (Some ks) = (\<lambda>r. phase_key r \<in> set ks)" for ks by (simp add: phase_kept_def fun_eq_iff)
  moreover have "filter (phase_kept None) rs = rs" by (simp add: phase_kept_def)
  ultimately show ?thesis by (cases affected) (simp_all add: phase_groups_def)
qed

lemma phase_group_keys:
  "distinct (map fst (phase_groups rs affected))"
  "fst ` set (phase_groups rs affected) = phase_key ` {r \<in> set rs. phase_kept affected r}"
proof -
  let ?kept = "filter (phase_kept affected) rs"
  show "distinct (map fst (phase_groups rs affected))"
    using distinct_group_by[of phase_key ?kept] by (simp add: phase_groups_alt sorted_items_def distinct_map)
  have "fst ` set (phase_groups rs affected) = set (keys_of (group_by phase_key ?kept))"
    by (simp add: phase_groups_alt)
  also have "\<dots> = phase_key ` set ?kept" unfolding keys_group_by by simp
  finally show "fst ` set (phase_groups rs affected) = phase_key ` {r \<in> set rs. phase_kept affected r}" by simp
qed

lemma phase_events_of:
  assumes "analyze_phase_records rs keys affected = Inr (n, summaries, events, cause)"
  shows "n = length (phase_groups rs affected)" "events = map phase_event_of (phase_groups rs affected)"
  using assms by (auto simp: analyze_phase_records_def bindR_eq_Inr_iff Let_def split: if_splits)

text \<open>C15: every affected iteration that has phase records, and no other, has one event; its phase is
  that of a record of the iteration, and no record of the iteration took longer.\<close>

theorem dominant_phase_is_longest:
  assumes "analyze_phase_records rs keys affected = Inr (n, summaries, events, cause)"
    "\<forall>r \<in> set rs. ph_seconds r \<noteq> NaN"
  shows "n = length events \<and> distinct (map pe_key events)
    \<and> pe_key ` set events = phase_key ` {r \<in> set rs. phase_kept affected r}
    \<and> (\<forall>e \<in> set events. \<exists>d \<in> set rs. phase_key d = pe_key e \<and> pe_phase e = phase_name_of d
         \<and> pe_us e = phase_us d \<and> (\<forall>r \<in> set rs. phase_key r = pe_key e \<longrightarrow> ph_seconds r \<le> ph_seconds d))"
proof -
  let ?gs = "phase_groups rs affected" and ?kept = "filter (phase_kept affected) rs"
  note e = phase_events_of[OF assms(1)]
  have key: "pe_key (phase_event_of g) = fst g" for g by (simp add: phase_event_of_def Let_def)
  have keys: "map pe_key events = map fst ?gs" using e key by simp
  have k3: "\<exists>d \<in> set rs. phase_key d = pe_key ev \<and> pe_phase ev = phase_name_of d
         \<and> pe_us ev = phase_us d \<and> (\<forall>r \<in> set rs. phase_key r = pe_key ev \<longrightarrow> ph_seconds r \<le> ph_seconds d)"
    if "ev \<in> set events" for ev
  proof -
    from that obtain g0 where g0: "g0 \<in> set (group_by phase_key ?kept)" "ev = phase_event_of g0"
      using e by (auto simp: phase_groups_alt)
    obtain k ys where "g0 = (k, ys)" by fastforce
    then have g: "(k, ys) \<in> set (group_by phase_key ?kept)" "ev = phase_event_of (k, ys)" using g0 by simp_all
    note ys = conjunct1[OF group_by_memD[OF g(1)]] conjunct2[OF group_by_memD[OF g(1)]]
    have same: "phase_kept affected r = phase_kept affected r'" if "phase_key r = phase_key r'" for r r'
      using that by (simp add: phase_kept_def split: option.splits)
    have mem: "r \<in> set ys \<longleftrightarrow> r \<in> set rs \<and> phase_kept affected r \<and> phase_key r = k" for r
      by (subst ys(1)) auto
    obtain r0 where "r0 \<in> set ys" using ys(2) by (cases ys) auto
    then have "phase_kept affected r" if "phase_key r = k" for r using mem[of r0] same[of r r0] that by simp
    then have all: "set ys = {r \<in> set rs. phase_key r = k}" using mem by blast
    then have "dominant_phase ys \<in> set ys \<and> (\<forall>r \<in> set ys. ph_seconds r \<le> ph_seconds (dominant_phase ys))"
      using assms(2) by (intro dominant_phase_max[OF ys(2)]) auto
    then show ?thesis using all by (intro bexI[of _ "dominant_phase ys"]) (auto simp: g(2) phase_event_of_def Let_def)
  qed
  have "pe_key ` set events = phase_key ` {r \<in> set rs. phase_kept affected r}"
    using phase_group_keys(2)[of rs affected] keys by (metis set_map)
  moreover have "distinct (map pe_key events)" using keys phase_group_keys(1) by simp
  moreover have "n = length events" using e by simp
  ultimately show ?thesis using k3 by blast
qed

definition sample_phase :: "string \<Rightarrow> rat \<Rightarrow> phase_record" where
  "sample_phase name t = \<lparr>ph_halo = 8, ph_sample = 1, ph_index = 3, ph_name = Some name, ph_seconds = Fin t,
     ph_max_rank = 0, ph_total_seconds = Fin 4, ph_total_max_rank = 0, ph_schema = None\<rparr>"

theorem dominant_phase_is_longest_witness:
  "\<exists>n summaries events cause. analyze_phase_records [sample_phase ''copy'' 1, sample_phase ''sync'' 2] [(8, 1)] None
      = Inr (n, summaries, events, cause)
    \<and> n = length events \<and> (\<exists>e \<in> set events. pe_key e = (8, 1, 3))"
proof -
  let ?a = "analyze_phase_records [sample_phase ''copy'' 1, sample_phase ''sync'' 2] [(8, 1)] None"
  have "\<not> isl ?a" by code_simp
  then obtain n summaries events cause where a: "?a = Inr (n, summaries, events, cause)"
    using not_isl_Inr by (metis surj_pair)
  have "\<forall>r \<in> set [sample_phase ''copy'' 1, sample_phase ''sync'' 2]. ph_seconds r \<noteq> NaN"
    by (simp add: sample_phase_def)
  note d = dominant_phase_is_longest[OF a this]
  have "(8, 1, 3) \<in> phase_key ` {r \<in> set [sample_phase ''copy'' 1, sample_phase ''sync'' 2]. phase_kept None r}"
    by (intro image_eqI[of _ _ "sample_phase ''copy'' 1"]) (simp_all add: sample_phase_def phase_kept_def phase_key_def)
  then have "(8, 1, 3) \<in> pe_key ` set events" using d by (simp only:)
  then show ?thesis using a d by force
qed

section \<open>Ranks\<close>

lemma to_float_19_20: "to_float (19/20) = Fin (of_int 8556839292003942 / 2 ^ 53)"
  by (rule to_float_in_binade[of _ "19/20 * 2 ^ 53"]) simp_all

lemma to_float_half: "to_float (1/2) = Fin (of_int (2 ^ 52) / 2 ^ 53)"
  by (rule to_float_in_binade[of _ "1/2 * 2 ^ 53"]) simp_all

lemma fmul_mono_right:
  assumes "fle (Fin 0) g" "0 < a" "a \<le> b"
  shows "fle (fmul g (Fin a)) (fmul g (Fin b))"
proof (cases g)
  case (Fin x)
  then show ?thesis using assms to_float_mono[of "x * a" "x * b"] by (simp add: fmul_def mult_left_mono)
qed (use assms in \<open>auto simp: fmul_def fle_def feq_def finf_def\<close>)

lemma slow_ranks_mono:
  assumes "fle (Fin 0) g" "to_float p = Fin a" "to_float q = Fin b" "0 < a" "a \<le> b"
  shows "length (slow_ranks q g rs) \<le> length (slow_ranks p g rs)"
proof -
  have "fle (fmul g (to_float q)) x \<Longrightarrow> fle (fmul g (to_float p)) x" for x
    using fmul_mono_right[OF assms(1,4,5)] fle_trans by (auto simp: assms(2,3))
  then show ?thesis unfolding slow_ranks_def by (induction rs) auto
qed

lemma py_max_nonneg:
  assumes "xs \<noteq> []" "\<forall>x \<in> set xs. fle (Fin 0) x"
  shows "fle (Fin 0) (py_max xs)"
proof -
  have "NaN \<notin> set xs" using assms(2) fle_not_NaN by blast
  then show ?thesis using py_max_ge[of xs] assms by blast
qed

lemma length_sorted_hosts: "sorted_hosts hs = Inr ys \<Longrightarrow> length ys = card (set hs)"
  by (auto simp: sorted_hosts_def Let_def length_remdups_card_conv split: if_splits)

definition sample_rank :: "int \<Rightarrow> rat \<Rightarrow> rank_record" where
  "sample_rank w t = \<lparr>rk_halo = 8, rk_sample = 1, rk_index = 3, rk_world_rank = w, rk_local_rank = 0,
     rk_hostname = Some ''n'', rk_device = 0, rk_row = 0, rk_col = 0, rk_local_seconds = Fin t,
     rk_global_seconds = Fin 1, rk_global_rank = 0, rk_schema = None, rk_phases = []\<rparr>"

text \<open>C10: the ranks of an event are counted consistently, at 95, 80 and 50 percent of the slowest time,
  and the class of the event follows from the count at 80 percent, in exact arithmetic, and from
  the number of nodes, rows and columns these ranks are on.\<close>

theorem rank_event_class:
  assumes "rank_event_of phases (k, rs) = Inr e" "rs \<noteq> []" "length rs \<le> 2 ^ 48"
    "\<forall>r \<in> set rs. fle (Fin 0) (global_max_us r)"
  shows "re_ge95 e \<le> re_ge80 e \<and> re_ge80 e \<le> re_ge50 e \<and> re_ge50 e \<le> re_world_size e \<and> re_world_size e = length rs
    \<and> re_class e =
        (if 4 * re_world_size e \<le> 5 * re_ge80 e then ''collective-wide''
         else if re_ge80 e \<le> 2 then ''rank-localized''
         else if length (re_nodes e) = 1 then ''node-localized''
         else if length (re_rows e) = 1 then ''row-localized''
         else if length (re_cols e) = 1 then ''column-localized'' else ''mixed'')"
proof -
  let ?rs = "sort_key rk_world_rank rs"
  let ?g = "py_max (map global_max_us ?rs)"
  let ?slow = "slow_ranks (4/5) ?g ?rs"
  obtain hosts where f: "re_ge95 e = length (slow_ranks (19/20) ?g ?rs)" "re_ge80 e = length ?slow"
    "re_ge50 e = length (slow_ranks (1/2) ?g ?rs)" "re_world_size e = length rs"
    "re_nodes e = hosts" "sorted_hosts (map rk_hostname ?slow) = Inr hosts"
    "re_rows e = sort (remdups (map rk_row ?slow))" "re_cols e = sort (remdups (map rk_col ?slow))"
    "classify_ranks ?slow (length rs) = Inr (re_class e)"
    using assms(1) by (auto simp: rank_event_of_def bindR_eq_Inr_iff Let_def)
  have "?rs \<noteq> []" using assms(2) by (metis set_empty set_sort)
  then have g: "fle (Fin 0) ?g" using assms(4) by (intro py_max_nonneg) auto
  have "length (slow_ranks (19/20) ?g ?rs) \<le> length ?slow"
    by (rule slow_ranks_mono[OF g to_float_four_fifths to_float_19_20]) simp_all
  moreover have "length ?slow \<le> length (slow_ranks (1/2) ?g ?rs)"
    by (rule slow_ranks_mono[OF g to_float_half to_float_four_fifths]) simp_all
  moreover have "length (slow_ranks (1/2) ?g ?rs) \<le> length rs"
    using length_filter_le[of _ ?rs] by (simp add: slow_ranks_def)
  moreover have iff: "\<lceil>4 / 5 * rat_of_int (int (length rs))\<rceil> \<le> int (length ?slow) \<longleftrightarrow> 4 * length rs \<le> 5 * length ?slow"
  proof -
    have "\<lceil>4 / 5 * rat_of_int (int (length rs))\<rceil> \<le> int (length ?slow)
        \<longleftrightarrow> 4 * rat_of_int (int (length rs)) \<le> 5 * rat_of_int (int (length ?slow))"
      by (simp add: ceiling_le_iff mult.commute divide_le_eq)
    also have "\<dots> \<longleftrightarrow> of_int (4 * int (length rs)) \<le> (of_int (5 * int (length ?slow)) :: rat)" by simp
    also have "\<dots> \<longleftrightarrow> 4 * length rs \<le> 5 * length ?slow" unfolding of_int_le_iff by linarith
    finally show ?thesis .
  qed
  have "ceil_scaled (4/5) (int (length rs)) = Inr \<lceil>4 / 5 * rat_of_int (int (length rs))\<rceil>"
    using ceil_scaled_exact[of "4/5" "int (length rs)"] assms(3) by simp
  note cls = f(9)[unfolded classify_ranks_def this bindR_Inr iff, THEN sum.inject(2)[THEN iffD1], symmetric]
  have len: "length (re_nodes e) = card (set (map rk_hostname ?slow))"
    "length (re_rows e) = card (set (map rk_row ?slow))" "length (re_cols e) = card (set (map rk_col ?slow))"
    using f length_sorted_hosts[OF f(6)] by (simp_all add: length_remdups_card_conv)
  ultimately show ?thesis unfolding f(1-4) len by (intro conjI cls) simp_all
qed

theorem rank_event_class_witness:
  "\<exists>e. rank_event_of [] ((8, 1, 3), [sample_rank 0 1, sample_rank 1 1]) = Inr e
    \<and> re_world_size e = 2 \<and> re_class e \<noteq> ''mixed''"
proof -
  let ?e = "rank_event_of [] ((8, 1, 3), [sample_rank 0 1, sample_rank 1 1])"
  have "\<not> isl ?e" by code_simp
  then have e: "?e = Inr (projr ?e)" by (rule not_isl_Inr)
  have "\<forall>r \<in> set [sample_rank 0 1, sample_rank 1 1]. fle (Fin 0) (global_max_us r)" by code_simp
  note r = rank_event_class[OF e _ _ this]
  have "re_ge80 (projr ?e) \<le> 2" using r by simp
  then show ?thesis using r e by (intro exI[of _ "projr ?e"]) auto
qed

text \<open>The counts of the values in a list.\<close>

definition frequencies :: "'a list \<Rightarrow> 'a \<Rightarrow> nat option" where
  "frequencies xs k = (if k \<in> set xs then Some (count_list xs k) else None)"

lemma sorted_counter_lookup: "map_of (sorted_items (counter xs)) = frequencies xs"
proof -
  have d: "distinct (map fst (counter xs))" by (simp add: keys_counter)
  then have "distinct (map fst (sorted_items (counter xs)))" by (simp add: sorted_items_def distinct_map)
  then have "map_of (sorted_items (counter xs)) = map_of (counter xs)"
    using d by (simp add: map_of_inject_set)
  then show ?thesis by (simp add: fun_eq_iff look_counter frequencies_def)
qed

text \<open>C24: the frequency tables of ranks, nodes, devices, rows and columns give for each value the
  number of slow ranks that have it, over all events, and the table of classes the number of events
  of each class; so each table counts every slow rank once and the classes count every event once.
  There is one event for each iteration with records, and an event is at most one of a match and a
  mismatch.\<close>

theorem rank_tables_total:
  assumes "analyze_rank_records rs keys phases = Inr ra"
  shows "(let slow = concat (map slow_of_group (sorted_items (group_by rank_event_key rs))) in
      (\<Sum>e\<leftarrow>ra_events ra. re_ge80 e) = length slow
      \<and> map_of (ra_ranks ra) = frequencies (map rk_world_rank slow)
      \<and> map_of (ra_nodes ra) = frequencies (map host_or_unknown slow)
      \<and> map_of (ra_gpus ra) = frequencies (map (\<lambda>r. host_or_unknown r @ '':'' @ string_of_int (rk_device r)) slow)
      \<and> map_of (ra_rows ra) = frequencies (map rk_row slow)
      \<and> map_of (ra_cols ra) = frequencies (map rk_col slow))
    \<and> map_of (ra_classes ra) = frequencies (map re_class (ra_events ra))
    \<and> (let slow = (\<Sum>e\<leftarrow>ra_events ra. re_ge80 e) in
      (\<Sum>p\<leftarrow>ra_ranks ra. snd p) = slow \<and> (\<Sum>p\<leftarrow>ra_nodes ra. snd p) = slow \<and> (\<Sum>p\<leftarrow>ra_gpus ra. snd p) = slow
      \<and> (\<Sum>p\<leftarrow>ra_rows ra. snd p) = slow \<and> (\<Sum>p\<leftarrow>ra_cols ra. snd p) = slow)
    \<and> (\<Sum>p\<leftarrow>ra_classes ra. snd p) = length (ra_events ra)
    \<and> ra_matches ra + ra_mismatches ra \<le> length (ra_events ra)
    \<and> distinct (map re_key (ra_events ra)) \<and> re_key ` set (ra_events ra) = rank_event_key ` set rs"
proof -
  let ?gs = "sorted_items (group_by rank_event_key rs)"
  let ?slow = "concat (map slow_of_group ?gs)"
  have ok: "traverse (rank_event_of phases) ?gs = Inr (ra_events ra)"
    and f: "ra_classes ra = sorted_items (counter (map re_class (ra_events ra)))"
      "ra_ranks ra = sorted_items (counter (map rk_world_rank ?slow))"
      "ra_nodes ra = sorted_items (counter (map host_or_unknown ?slow))"
      "ra_gpus ra = sorted_items (counter (map (\<lambda>r. host_or_unknown r @ '':'' @ string_of_int (rk_device r)) ?slow))"
      "ra_rows ra = sorted_items (counter (map rk_row ?slow))" "ra_cols ra = sorted_items (counter (map rk_col ?slow))"
      "ra_matches ra = length (filter re_matches (ra_events ra))"
      "ra_mismatches ra = length (filter (\<lambda>e. re_phase_rank e \<noteq> None \<and> \<not> re_matches e) (ra_events ra))"
    using assms by (auto simp: analyze_rank_records_def bindR_eq_Inr_iff Let_def split: option.splits)
  have l: "list_all2 (\<lambda>g e. rank_event_of phases g = Inr e) ?gs (ra_events ra)"
    using ok by (simp add: traverse_Inr_iff)
  have ev: "re_ge80 e = length (slow_of_group g) \<and> re_key e = fst g" if "rank_event_of phases g = Inr e" for g e
    using that by (auto simp: rank_event_of_def bindR_eq_Inr_iff Let_def slow_of_group_def)
  have "map re_ge80 (ra_events ra) = map (\<lambda>g. length (slow_of_group g)) ?gs \<and> map re_key (ra_events ra) = map fst ?gs"
    using l by (induction rule: list_all2_induct) (auto dest: ev)
  then have s: "(\<Sum>e\<leftarrow>ra_events ra. re_ge80 e) = length ?slow" and k: "map re_key (ra_events ra) = map fst ?gs"
    by (simp_all add: length_concat comp_def)
  have m: "length (filter re_matches es) + length (filter (\<lambda>e. re_phase_rank e \<noteq> None \<and> \<not> re_matches e) es) \<le> length es" for es :: "rank_event list"
    by (induction es) auto
  have "distinct (map fst ?gs)"
    using distinct_group_by[of rank_event_key rs] by (simp add: sorted_items_def distinct_map)
  moreover have "set (map fst ?gs) = rank_event_key ` set rs"
    using keys_group_by[of rank_event_key rs] by (metis set_map set_sorted_items set_uniq)
  ultimately show ?thesis
    using k m[of "ra_events ra"] by (simp add: f s sorted_counter_lookup sum_sorted_items counter_total flip: set_map)
qed

theorem rank_tables_total_witness:
  "\<exists>ra. analyze_rank_records [sample_rank 0 1, sample_rank 1 1] [(8, 1)] [] = Inr ra
    \<and> (8, 1, 3) \<in> re_key ` set (ra_events ra)"
proof -
  let ?a = "analyze_rank_records [sample_rank 0 1, sample_rank 1 1] [(8, 1)] []"
  have "\<not> isl ?a" by code_simp
  then have a: "?a = Inr (projr ?a)" by (rule not_isl_Inr)
  have "(8, 1, 3) \<in> rank_event_key ` set [sample_rank 0 1, sample_rank 1 1]"
    by (simp add: rank_event_key_def sample_rank_def)
  then show ?thesis using rank_tables_total[OF a] a by metis
qed

end
