(* ===== verification/StallReport.thy ===== *)
theory StallReport
  imports StallAnalysis
begin

text \<open>
  \<^verbatim>\<open>tools/analyze_iteration_stalls.py\<close>, one case from its files to its summary, and
  the three outputs: Markdown, CSV and JSON.
\<close>

section \<open>The case\<close>

record case_summary =
  cs_dir :: path
  cs_backend :: json
  cs_sync_mode :: json
  cs_system :: string
  cs_rocm :: string
  cs_category :: string
  cs_threshold :: pyfloat
  cs_samples :: nat
  cs_iterations :: int
  cs_records :: nat
  cs_stalls :: nat
  cs_stall_percent :: pyfloat
  cs_bad_samples :: nat
  cs_bad_percent :: pyfloat
  cs_max_stalls :: nat
  cs_longest_free :: nat
  cs_min :: "pyfloat option"
  cs_median :: "pyfloat option"
  cs_mean :: "pyfloat option"
  cs_max :: "pyfloat option"
  cs_ranks :: "(int, nat) dict"
  cs_sequence :: string
  cs_affected :: "iteration_record list"
  cs_isolated :: nat
  cs_multiple :: nat
  cs_nearly_all :: nat
  cs_with_phase :: nat
  cs_phases :: "phase_summary list"
  cs_phase_events :: "phase_event list"
  cs_cause :: string
  cs_rank_analysis :: rank_analysis
  cs_warnings :: "string list"

definition infer_rocm_from_path :: "path \<Rightarrow> string" where
  "infer_rocm_from_path p = (case find (prefix ''rocm-'') p of None \<Rightarrow> [] | Some part \<Rightarrow> part)"

definition infer_category_from_path :: "path \<Rightarrow> string" where
  "infer_category_from_path p = (case index_of ''results'' p of
     Some i \<Rightarrow> if i + 3 < length p then p ! (i + 3) else [] | None \<Rightarrow> [])"

definition stall_system_from_path :: "path \<Rightarrow> string" where
  "stall_system_from_path p = (case index_of ''results'' p of
     Some i \<Rightarrow> if i + 1 < length p then p ! (i + 1) else [] | None \<Rightarrow> [])"

definition choose_threshold :: "pyfloat option \<Rightarrow> (string, string) dict \<Rightarrow> pyfloat res" where
  "choose_threshold override md =
     (let t = (case override of Some t \<Rightarrow> t
        | None \<Rightarrow> (case py_float (dict_get md ''iteration_stall_threshold_us'' ''0'') of
            Some t \<Rightarrow> t | None \<Rightarrow> Fin 0))
      in if flt t (Fin 0) then Inl (StallAnalysisError ''--threshold-us must be nonnegative'') else Inr t)"

definition is_stall :: "pyfloat \<Rightarrow> iteration_record \<Rightarrow> bool" where
  "is_stall threshold r \<longleftrightarrow> fle threshold (duration_us r)"

definition iteration_sample :: "iteration_record \<Rightarrow> sample_key" where
  "iteration_sample r = (it_halo r, it_sample r)"

definition stalls_of :: "iteration_record list \<Rightarrow> sample_key \<Rightarrow> nat" where
  "stalls_of stalled key = length (filter (\<lambda>r. iteration_sample r = key) stalled)"

text \<open>\<^verbatim>\<open>"S" if sample.key in stalls_by_sample else "F"\<close>.\<close>

definition sample_marker :: "iteration_record list \<Rightarrow> sample_info \<Rightarrow> char" where
  "sample_marker stalled s =
     (if map_of (group_by iteration_sample stalled) (s_key s) \<noteq> None then CHR ''S'' else CHR ''F'')"

definition max_group :: "('k, 'a list) dict \<Rightarrow> nat" where
  "max_group groups = foldl max 0 (map (\<lambda>g. length (snd g)) groups)"

definition sample_classes :: "iteration_record list \<Rightarrow> sample_info list \<Rightarrow> string list res" where
  "sample_classes stalled samples = traverse (\<lambda>s. classify_sample
     (int (length (case map_of (group_by iteration_sample stalled) (s_key s) of None \<Rightarrow> [] | Some rs \<Rightarrow> rs)))
     (s_iterations s)) samples"

text \<open>\<^verbatim>\<open>a or b\<close> on values; a version that is not text has no \<^verbatim>\<open>strip\<close>.\<close>

definition or_json :: "json \<Rightarrow> json \<Rightarrow> json" where
  "or_json a b = (if json_bool a then a else b)"

definition rocm_text :: "json \<Rightarrow> string res" where
  "rocm_text v = (case v of JStr s \<Rightarrow> Inr (normalize_rocm s) | _ \<Rightarrow> Inl AttributeError)"

definition if_any :: "'a list \<Rightarrow> 'b res \<Rightarrow> 'b option res" where
  "if_any xs m = (if xs = [] then Inr None else bindR m (\<lambda>x. Inr (Some x)))"

definition analyze_case :: "fs \<Rightarrow> path \<Rightarrow> pyfloat option \<Rightarrow> case_summary res" where
  "analyze_case fs dir override =
     bindR (load_samples fs dir) (\<lambda>(samples, results).
     bindR (parse_key_value_file fs (child dir ''result-metadata.txt'')) (\<lambda>md.
     bindR (parse_key_value_file fs (child dir ''system-resolution.txt'')) (\<lambda>sysmd.
     bindR (load_iteration_records fs dir) (\<lambda>(records, w1).
     bindR (load_phase_records fs dir) (\<lambda>(phases, w2).
     bindR (load_rank_records fs dir) (\<lambda>(rank_rows, w3).
     bindR (choose_threshold override md) (\<lambda>threshold.
     let keys = map s_key samples;
         total = (\<Sum>s\<leftarrow>samples. s_iterations s);
         stalled = filter (is_stall threshold) records;
         durations = map duration_us stalled;
         groups = group_by iteration_sample stalled;
         sequence = map (sample_marker stalled) samples;
         bad = length (filter (\<lambda>s. sample_marker stalled s = CHR ''S'') samples)
     in
     bindR (analyze_phase_records phases keys (Some (map iteration_key stalled)))
       (\<lambda>(with_phase, phase_sums, phase_events, cause).
     bindR (analyze_rank_records rank_rows keys phase_events) (\<lambda>ra.
     bindR (sample_classes stalled samples) (\<lambda>classes.
     bindR (as_obj (hd results)) (\<lambda>first.
     bindR (as_obj (jget first ''metadata'' (JObj []))) (\<lambda>fmd.
     bindR (rocm_text (or_json (jget fmd ''rocm_version'' JNull)
         (or_json (JStr (dict_get md ''rocm_version'' [])) (JStr (infer_rocm_from_path dir))))) (\<lambda>rocm.
     bindR (percent (int (length durations)) total) (\<lambda>stall_pct.
     bindR (percent (int bad) (int (length samples))) (\<lambda>bad_pct.
     bindR (if_any durations (median durations)) (\<lambda>med.
     bindR (if_any durations (fmean durations)) (\<lambda>mean.
     Inr \<lparr>cs_dir = dir, cs_backend = jget first ''backend'' (JStr []),
          cs_sync_mode = jget fmd ''rccl_sync_mode'' (JStr []),
          cs_system = or_str (map_of sysmd ''active_system'')
             (or_str (Some (dict_get md ''system'' [])) (stall_system_from_path dir)),
          cs_rocm = rocm,
          cs_category = or_str (map_of md ''result_category'') (infer_category_from_path dir),
          cs_threshold = threshold, cs_samples = length samples, cs_iterations = total,
          cs_records = length records, cs_stalls = length durations, cs_stall_percent = stall_pct,
          cs_bad_samples = bad, cs_bad_percent = bad_pct, cs_max_stalls = max_group groups,
          cs_longest_free = longest_stall_free_sequence sequence,
          cs_min = (if durations = [] then None else Some (py_min durations)),
          cs_median = med, cs_mean = mean,
          cs_max = (if durations = [] then None else Some (py_max durations)),
          cs_ranks = sorted_items (counter (map it_max_rank stalled)), cs_sequence = sequence,
          cs_affected = stalled,
          cs_isolated = count_list classes ''isolated'', cs_multiple = count_list classes ''multiple'',
          cs_nearly_all = count_list classes ''nearly_all'', cs_with_phase = with_phase,
          cs_phases = phase_sums, cs_phase_events = phase_events, cs_cause = cause,
          cs_rank_analysis = ra,
          cs_warnings = w1 @ w2 @ w3 @ missing_sample_warnings ''iteration'' keys (map iteration_sample records)
             @ ra_warnings ra\<rparr>)))))))))))))))))"

section \<open>Markdown\<close>

definition format_optional :: "pyfloat option \<Rightarrow> string" where
  "format_optional v = (case v of None \<Rightarrow> ''n/a'' | Some x \<Rightarrow> format_fixed 3 x)"

definition nat_text :: "nat \<Rightarrow> string" where
  "nat_text n = string_of_int (int n)"

definition table_cells :: "string list \<Rightarrow> string" where
  "table_cells cells = ''| '' @ join '' | '' cells @ '' |''"

text \<open>A table with its header, or one line when there is nothing to show.\<close>

definition table_or :: "string \<Rightarrow> string list \<Rightarrow> string list \<Rightarrow> string list" where
  "table_or none header body = (if body = [] then [none] else header @ body)"

definition case_overview :: "case_summary \<Rightarrow> string" where
  "case_overview c = table_cells [path_name (cs_dir c), nat_text (cs_samples c),
     string_of_int (cs_iterations c), nat_text (cs_stalls c), format_fixed 3 (cs_stall_percent c),
     nat_text (cs_bad_samples c) @ '' ('' @ format_fixed 3 (cs_bad_percent c) @ ''%)'',
     nat_text (cs_max_stalls c), nat_text (cs_longest_free c), format_optional (cs_min c),
     format_optional (cs_median c), format_optional (cs_mean c), format_optional (cs_max c)]"

definition count_lines :: "('k \<Rightarrow> string) \<Rightarrow> ('k, nat) dict \<Rightarrow> string list" where
  "count_lines f d = map (\<lambda>(k, n). table_cells [f k, nat_text n]) d"

definition key_cells :: "iteration_id \<Rightarrow> string list" where
  "key_cells k = (case k of (h, s, i) \<Rightarrow> map string_of_int [h, s, i])"

definition affected_line :: "iteration_record \<Rightarrow> string" where
  "affected_line r = table_cells (key_cells (iteration_key r)
     @ [format_fixed 3 (duration_us r), string_of_int (it_max_rank r)])"

definition phase_summary_line :: "phase_summary \<Rightarrow> string" where
  "phase_summary_line p = table_cells [ps_name p, nat_text (ps_dominant p),
     format_fixed 3 (ps_cumulative_ms p), format_fixed 3 (ps_median_us p), format_fixed 3 (ps_max_us p)]"

definition phase_event_line :: "phase_event \<Rightarrow> string" where
  "phase_event_line e = table_cells (key_cells (pe_key e) @ [pe_phase e, format_fixed 3 (pe_us e),
     string_of_int (pe_max_rank e), format_fixed 3 (pe_total_us e), string_of_int (pe_total_max_rank e)])"

text \<open>\<^verbatim>\<open>", ".join(nodes)\<close> raises on a missing host name.\<close>

definition rank_event_line :: "rank_event \<Rightarrow> string res" where
  "rank_event_line e = (if None \<in> set (re_nodes e) then Inl TypeError
     else Inr (table_cells (key_cells (re_key e) @ [re_class e, nat_text (re_ge80 e),
       or_str (Some (join '', '' (map (\<lambda>h. or_str h []) (re_nodes e)))) ''n/a'',
       format_fixed 3 (re_global_us e), string_of_int (re_global_rank e), format_fixed 3 (re_cv e)])))"

definition rank_section :: "rank_analysis \<Rightarrow> string list res" where
  "rank_section ra = (if ra_events ra = [] then Inr [''No stalled-rank data available.'']
     else bindR (traverse rank_event_line (ra_events ra)) (\<lambda>ls.
       Inr ([''| Halo | Sample | Iteration | Classification | Ranks >=80% | Nodes >=80% | Global max us | Max rank | CV |'',
             ''| ---: | ---: | ---: | --- | ---: | --- | ---: | ---: | ---: |''] @ ls
          @ [[], ''Slow-rank frequency (>=80% of global max):'', []]
          @ table_or ''None.'' [''| Rank | Events |'', ''| ---: | ---: |''] (count_lines string_of_int (ra_ranks ra))
          @ [[], ''Slow-node frequency (>=80% of global max):'', []]
          @ table_or ''None.'' [''| Node | Events |'', ''| --- | ---: |''] (count_lines (\<lambda>s. s) (ra_nodes ra))
          @ [LF # ''Dominant phase rank matches total max rank: '' @ nat_text (ra_matches ra)
               @ ''; mismatches: '' @ nat_text (ra_mismatches ra)])))"

definition case_section :: "case_summary \<Rightarrow> string list res" where
  "case_section c = bindR (rank_section (cs_rank_analysis c)) (\<lambda>rank_lines.
     Inr ([''## '' @ path_name (cs_dir c), [], ''- Result directory: `'' @ str_path (cs_dir c) @ ''`'',
       ''- System: '' @ or_str (Some (cs_system c)) ''unknown'',
       ''- ROCm version: '' @ or_str (Some (cs_rocm c)) ''unknown'',
       ''- Backend: '' @ json_str (cs_backend c),
       ''- RCCL sync mode: '' @ json_str (or_json (cs_sync_mode c) (JStr ''n/a'')),
       ''- Threshold: '' @ format_g 6 (cs_threshold c) @ '' us'',
       ''- Sample sequence: `'' @ cs_sequence c @ ''`'',
       ''- Isolated bad samples: '' @ nat_text (cs_isolated c),
       ''- Multiple-bad-iteration samples: '' @ nat_text (cs_multiple c),
       ''- Nearly-all-slow samples: '' @ nat_text (cs_nearly_all c),
       ''- Stalled iterations with phase data: '' @ nat_text (cs_with_phase c),
       ''- Primary stall classification: '' @ cs_cause c, [], ''Rank frequency:'', []]
     @ table_or ''No stalls above threshold.'' [''| Rank | Stalls |'', ''| ---: | ---: |'']
         (count_lines string_of_int (cs_ranks c))
     @ [[], ''Affected sample/iteration indices:'', []]
     @ table_or ''None.'' [''| Halo | Sample | Iteration | Duration us | Max rank |'',
         ''| ---: | ---: | ---: | ---: | ---: |''] (map affected_line (cs_affected c))
     @ [[], ''Phase dominance:'', []]
     @ table_or ''No phase data available.''
         [''| Phase | Dominant iterations | Cumulative ms | Median us | Max us |'',
          ''| --- | ---: | ---: | ---: | ---: |''] (map phase_summary_line (cs_phases c))
     @ [[], ''Per-stalled-iteration phase breakdown:'', []]
     @ table_or ''None.''
         [''| Halo | Sample | Iteration | Dominant phase | Phase us | Phase rank | Total us | Total rank |'',
          ''| ---: | ---: | ---: | --- | ---: | ---: | ---: | ---: |''] (map phase_event_line (cs_phase_events c))
     @ [[], ''Per-rank stalled iteration classification:'', []] @ rank_lines
     @ (if cs_warnings c = [] then [] else [[], ''Warnings:''] @ map (\<lambda>w. ''- '' @ w) (cs_warnings c))
     @ [[]]))"

definition markdown_report :: "string \<Rightarrow> case_summary list \<Rightarrow> string res" where
  "markdown_report now cs = bindR (traverse case_section cs) (\<lambda>sections.
     Inr (join [LF] ([''# gHALO Iteration Stall Analysis'', [], ''Generated: '' @ now, [],
       ''| Case | Samples | Iterations | Stalls | Stall % | Samples with stalls | Max/sample | Longest F run | Min us | Median us | Mean us | Max us |'',
       ''| --- | ---: | ---: | ---: | ---: | ---: | ---: | ---: | ---: | ---: | ---: | ---: |'']
       @ map case_overview cs @ [[]] @ concat sections)))"

section \<open>CSV and JSON\<close>

definition opt_float :: "pyfloat option \<Rightarrow> json" where
  "opt_float v = (case v of None \<Rightarrow> JNull | Some x \<Rightarrow> JFloat x)"

definition nat_json :: "nat \<Rightarrow> json" where
  "nat_json n = JInt (int n)"

definition counts_json :: "('k \<Rightarrow> string) \<Rightarrow> ('k, nat) dict \<Rightarrow> json" where
  "counts_json f d = JObj (map (\<lambda>(k, n). (f k, nat_json n)) d)"

text \<open>The columns the CSV and the JSON summary begin with alike.\<close>

definition summary_head :: "case_summary \<Rightarrow> (string \<times> json) list" where
  "summary_head c =
     [(''label'', JStr (path_name (cs_dir c))), (''result_dir'', JStr (str_path (cs_dir c))),
      (''system'', JStr (cs_system c)), (''rocm_version'', JStr (cs_rocm c)),
      (''category'', JStr (cs_category c)), (''backend'', cs_backend c),
      (''rccl_sync_mode'', cs_sync_mode c), (''threshold_us'', JFloat (cs_threshold c)),
      (''samples_found'', nat_json (cs_samples c)), (''total_measured_iterations'', JInt (cs_iterations c)),
      (''emitted_iteration_records'', nat_json (cs_records c)), (''stall_count'', nat_json (cs_stalls c)),
      (''stalled_iteration_percent'', JFloat (cs_stall_percent c)),
      (''samples_with_stalls'', nat_json (cs_bad_samples c)),
      (''samples_with_stalls_percent'', JFloat (cs_bad_percent c)),
      (''max_stalls_in_one_sample'', nat_json (cs_max_stalls c)),
      (''longest_stall_free_sequence'', nat_json (cs_longest_free c)),
      (''min_stall_duration_us'', opt_float (cs_min c)), (''median_stall_duration_us'', opt_float (cs_median c)),
      (''mean_stall_duration_us'', opt_float (cs_mean c)), (''max_stall_duration_us'', opt_float (cs_max c))]"

definition summary_csv_cells :: "case_summary \<Rightarrow> (string \<times> json) list" where
  "summary_csv_cells c = summary_head c @
     [(''isolated_bad_samples'', nat_json (cs_isolated c)),
      (''multiple_bad_samples'', nat_json (cs_multiple c)),
      (''nearly_all_slow_samples'', nat_json (cs_nearly_all c)),
      (''stalled_iterations_with_phase_data'', nat_json (cs_with_phase c)),
      (''stall_cause_classification'', JStr (cs_cause c)),
      (''rank_event_classifications'', JStr (json_line (counts_json (\<lambda>s. s) (ra_classes (cs_rank_analysis c))))),
      (''dominant_phase_rank_matches'', nat_json (ra_matches (cs_rank_analysis c))),
      (''dominant_phase_rank_mismatches'', nat_json (ra_mismatches (cs_rank_analysis c))),
      (''sample_sequence'', JStr (cs_sequence c))]"

definition CSV_COLUMNS :: "string list" where
  "CSV_COLUMNS = [''label'', ''result_dir'', ''system'', ''rocm_version'', ''category'', ''backend'',
     ''rccl_sync_mode'', ''threshold_us'', ''samples_found'', ''total_measured_iterations'',
     ''emitted_iteration_records'', ''stall_count'', ''stalled_iteration_percent'', ''samples_with_stalls'',
     ''samples_with_stalls_percent'', ''max_stalls_in_one_sample'', ''longest_stall_free_sequence'',
     ''min_stall_duration_us'', ''median_stall_duration_us'', ''mean_stall_duration_us'',
     ''max_stall_duration_us'', ''isolated_bad_samples'', ''multiple_bad_samples'',
     ''nearly_all_slow_samples'', ''stalled_iterations_with_phase_data'', ''stall_cause_classification'',
     ''rank_event_classifications'', ''dominant_phase_rank_matches'', ''dominant_phase_rank_mismatches'',
     ''sample_sequence'']"

definition cell_text :: "json \<Rightarrow> string" where
  "cell_text v = (if v = JNull then [] else json_str v)"

definition csv_summary :: "case_summary list \<Rightarrow> string" where
  "csv_summary cs = csv_write (CSV_COLUMNS
     # map (\<lambda>c. map (\<lambda>k. cell_text (jget (summary_csv_cells c) k (JStr []))) CSV_COLUMNS) cs)"

definition key_json :: "iteration_id \<Rightarrow> (string \<times> json) list" where
  "key_json k = (case k of (h, s, i) \<Rightarrow>
     [(''halo_words'', JInt h), (''sample_index'', JInt s), (''iteration_index'', JInt i)])"

definition phase_event_json :: "phase_event \<Rightarrow> json" where
  "phase_event_json e = JObj (key_json (pe_key e) @
     [(''dominant_phase'', JStr (pe_phase e)), (''dominant_phase_us'', JFloat (pe_us e)),
      (''dominant_phase_max_rank'', JInt (pe_max_rank e)), (''total_iteration_us'', JFloat (pe_total_us e)),
      (''total_iteration_max_rank'', JInt (pe_total_max_rank e))])"

definition rank_value_json :: "rank_record \<times> pyfloat \<Rightarrow> json" where
  "rank_value_json p = (case p of (r, x) \<Rightarrow> JObj
     [(''world_rank'', JInt (rk_world_rank r)), (''hostname'', opt_str (rk_hostname r)),
      (''selected_hip_device'', JInt (rk_device r)), (''cart_row'', JInt (rk_row r)),
      (''cart_col'', JInt (rk_col r)), (''phase_us'', JFloat x),
      (''local_total_us'', JFloat (local_total_us r))])"

definition rank_event_json :: "rank_event \<Rightarrow> json" where
  "rank_event_json e = JObj (key_json (re_key e) @
     [(''classification'', JStr (re_class e)), (''world_size'', nat_json (re_world_size e)),
      (''global_max_us'', JFloat (re_global_us e)), (''global_max_rank'', JInt (re_global_rank e)),
      (''min_local_us'', JFloat (re_min_us e)), (''median_local_us'', JFloat (re_median_us e)),
      (''mean_local_us'', JFloat (re_mean_us e)), (''max_local_us'', JFloat (re_max_us e)),
      (''coefficient_of_variation'', JFloat (re_cv e)), (''ranks_ge_50pct'', nat_json (re_ge50 e)),
      (''ranks_ge_80pct'', nat_json (re_ge80 e)), (''ranks_ge_95pct'', nat_json (re_ge95 e)),
      (''pct_ranks_ge_80pct'', JFloat (re_pct80 e)), (''nodes_ge_80pct'', JList (map opt_str (re_nodes e))),
      (''rows_ge_80pct'', JList (map JInt (re_rows e))), (''columns_ge_80pct'', JList (map JInt (re_cols e))),
      (''dominant_phase'', JStr (re_phase e)),
      (''dominant_phase_max_rank'', case re_phase_rank e of None \<Rightarrow> JNull | Some k \<Rightarrow> JInt k),
      (''dominant_phase_rank_matches_total'', JBool (re_matches e)),
      (''local_dominant_phase_distribution'', JList (map rank_value_json (re_phase_values e)))])"

definition phase_summary_json :: "phase_summary \<Rightarrow> json" where
  "phase_summary_json p = JObj [(''phase_name'', JStr (ps_name p)),
     (''dominant_iterations'', nat_json (ps_dominant p)), (''cumulative_ms'', JFloat (ps_cumulative_ms p)),
     (''median_us'', JFloat (ps_median_us p)), (''max_us'', JFloat (ps_max_us p)),
     (''max_rank_frequency'', counts_json string_of_int (ps_max_ranks p))]"

definition summary_to_json :: "case_summary \<Rightarrow> json" where
  "summary_to_json c = (let ra = cs_rank_analysis c in JObj (summary_head c @
     [(''rank_frequency'', counts_json string_of_int (cs_ranks c)),
      (''sample_sequence'', JStr (cs_sequence c)),
      (''affected_indices'', JList (map (\<lambda>r. JObj (key_json (iteration_key r) @
         [(''duration_us'', JFloat (duration_us r)), (''max_rank'', JInt (it_max_rank r))])) (cs_affected c))),
      (''isolated_bad_samples'', nat_json (cs_isolated c)),
      (''multiple_bad_samples'', nat_json (cs_multiple c)),
      (''nearly_all_slow_samples'', nat_json (cs_nearly_all c)),
      (''stalled_iterations_with_phase_data'', nat_json (cs_with_phase c)),
      (''stall_cause_classification'', JStr (cs_cause c)),
      (''rank_event_breakdown'', JList (map rank_event_json (ra_events ra))),
      (''rank_event_classification_frequency'', counts_json (\<lambda>s. s) (ra_classes ra)),
      (''slow_rank_frequency'', counts_json string_of_int (ra_ranks ra)),
      (''slow_node_frequency'', counts_json (\<lambda>s. s) (ra_nodes ra)),
      (''slow_gpu_frequency'', counts_json (\<lambda>s. s) (ra_gpus ra)),
      (''slow_row_frequency'', counts_json string_of_int (ra_rows ra)),
      (''slow_column_frequency'', counts_json string_of_int (ra_cols ra)),
      (''dominant_phase_rank_matches'', nat_json (ra_matches ra)),
      (''dominant_phase_rank_mismatches'', nat_json (ra_mismatches ra)),
      (''phase_summaries'', JList (map phase_summary_json (cs_phases c))),
      (''phase_iteration_breakdown'', JList (map phase_event_json (cs_phase_events c))),
      (''warnings'', JList (map JStr (cs_warnings c)))]))"

definition json_summary :: "string \<Rightarrow> case_summary list \<Rightarrow> string" where
  "json_summary now cs = json_dumps False (JObj [(''generated_utc'', JStr now),
     (''cases'', JList (map summary_to_json cs))]) @ [LF]"

definition write_outputs :: "string \<Rightarrow> fs \<Rightarrow> path \<Rightarrow> case_summary list \<Rightarrow> fs res" where
  "write_outputs now fs dir cs =
     bindR (fs_mkdirs fs dir) (\<lambda>fs.
     bindR (markdown_report now cs) (\<lambda>report.
     bindR (fs_write fs (child dir ''iteration-stall-report.md'') (report @ [LF])) (\<lambda>fs.
     bindR (fs_write fs (child dir ''iteration-stall-summary.csv'') (csv_summary cs)) (\<lambda>fs.
     fs_write fs (child dir ''iteration-stall-summary.json'') (json_summary now cs)))))"

section \<open>The entry point\<close>

record stall_args =
  sa_inputs :: "string list"
  sa_threshold :: "pyfloat option"
  sa_system :: string
  sa_rocm :: string
  sa_category :: string
  sa_filter :: string
  sa_output_dir :: string

definition stall_dirs :: "(path \<Rightarrow> path) \<Rightarrow> path \<Rightarrow> fs \<Rightarrow> stall_args \<Rightarrow> path list res" where
  "stall_dirs resolve cwd fs args =
     bindR (if sa_inputs args \<noteq> [] then result_dirs_from_inputs resolve fs (sa_inputs args)
            else Inr (discover_result_dirs resolve fs cwd (sa_system args) (sa_rocm args)
                        (sa_category args) (sa_filter args))) (\<lambda>dirs.
     let dirs = (if sa_filter args \<noteq> [] \<and> sa_inputs args \<noteq> []
                 then filter (\<lambda>p. sublist (sa_filter args) (path_name p)) dirs else dirs)
     in if dirs = [] then Inl (StallAnalysisError ''no matching result directories found'') else Inr dirs)"

definition stall_run :: "(path \<Rightarrow> path) \<Rightarrow> path \<Rightarrow> string \<Rightarrow> stall_args \<Rightarrow> io \<Rightarrow> io res" where
  "stall_run resolve cwd now args s =
     bindR (stall_dirs resolve cwd (io_files s) args) (\<lambda>dirs.
     bindR (traverse (\<lambda>p. analyze_case (io_files s) p (sa_threshold args)) dirs) (\<lambda>cs.
     bindR (write_outputs now (io_files s) (Path (sa_output_dir args)) cs) (\<lambda>fs.
     bindR (markdown_report now cs) (\<lambda>report.
     Inr (s\<lparr>io_files := fs, io_out := io_out s @ report @ [LF] @ LF
        # ''Wrote iteration stall analysis to '' @ sa_output_dir args @ [LF]\<rparr>)))))"

text \<open>
  The process ends with code 0, with code 2 for a negative threshold, or with code 1 when one of
  the exceptions it names arrives; statistics errors are value errors.  Files written before an
  exception stay, and are not part of the outcome.
\<close>

datatype stall_outcome = Completed io | UsageError | Failed exn | Uncaught exn

definition stall_handled :: "exn \<Rightarrow> bool" where
  "stall_handled e \<longleftrightarrow> (case e of StallAnalysisError _ \<Rightarrow> True | OSError \<Rightarrow> True | ValueError \<Rightarrow> True
     | StatisticsError \<Rightarrow> True | _ \<Rightarrow> False)"

definition stall_main :: "(path \<Rightarrow> path) \<Rightarrow> path \<Rightarrow> string \<Rightarrow> stall_args \<Rightarrow> io \<Rightarrow> stall_outcome" where
  "stall_main resolve cwd now args s =
     (if (case sa_threshold args of Some t \<Rightarrow> flt t (Fin 0) | None \<Rightarrow> False) then UsageError
      else (case stall_run resolve cwd now args s of
        Inr s' \<Rightarrow> Completed s'
      | Inl e \<Rightarrow> if stall_handled e then Failed e else Uncaught e))"

section \<open>The counts of a case\<close>

lemma classify_sample_range:
  "classify_sample n its = Inr c \<Longrightarrow> c \<in> {''none'', ''isolated'', ''multiple'', ''nearly_all''} \<and> (c = ''none'' \<longleftrightarrow> n = 0)"
  by (auto simp: classify_sample_def bindR_eq_Inr_iff split: if_splits)

lemma classes_bad:
  assumes "sample_classes stalled samples = Inr classes"
  shows "count_list classes ''isolated'' + count_list classes ''multiple'' + count_list classes ''nearly_all''
    = length (filter (\<lambda>s. sample_marker stalled s = CHR ''S'') samples)"
proof -
  let ?n = "\<lambda>s :: sample_info. case map_of (group_by iteration_sample stalled) (s_key s) of None \<Rightarrow> [] | Some rs \<Rightarrow> rs"
  have l: "list_all2 (\<lambda>s c. classify_sample (int (length (?n s))) (s_iterations s) = Inr c) samples classes"
    using assms by (simp add: sample_classes_def traverse_Inr_iff)
  have n: "?n s = [] \<longleftrightarrow> map_of (group_by iteration_sample stalled) (s_key s) = None" for s :: sample_info
    by (auto simp: look_group_by split: list.splits)
  have "list_all2 (\<lambda>s c. c \<in> {''none'', ''isolated'', ''multiple'', ''nearly_all''}
      \<and> (c = ''none'' \<longleftrightarrow> sample_marker stalled s \<noteq> CHR ''S'')) samples classes"
    using l
  proof (rule list_all2_mono)
    fix s c assume "classify_sample (int (length (?n s))) (s_iterations s) = Inr c"
    from classify_sample_range[OF this]
    show "c \<in> {''none'', ''isolated'', ''multiple'', ''nearly_all''} \<and> (c = ''none'' \<longleftrightarrow> sample_marker stalled s \<noteq> CHR ''S'')"
      unfolding sample_marker_def of_nat_eq_0_iff length_0_conv n[of s] by simp blast
  qed
  then show ?thesis by (induction rule: list_all2_induct) auto
qed

lemma max_group_le: "max_group (group_by f xs) \<le> length xs"
proof -
  have "foldl max m ns \<le> b" if "m \<le> b" "\<forall>n \<in> set ns. n \<le> b" for m b :: nat and ns
    using that by (induction ns arbitrary: m) auto
  moreover have "length (snd g) \<le> length xs" if "g \<in> set (group_by f xs)" for g
    using group_by_memD[of "fst g" "snd g" f xs] that by simp
  ultimately show ?thesis by (simp add: max_group_def)
qed

lemma sublist_count: "sublist xs ys \<Longrightarrow> count_list xs c \<le> count_list ys c"
  by (auto simp: sublist_def count_list_append)

lemma markers_count:
  "count_list (map (sample_marker stalled) ss) (CHR ''S'') = length (filter (\<lambda>s. sample_marker stalled s = CHR ''S'') ss)"
  "count_list (map (sample_marker stalled) ss) (CHR ''F'') + count_list (map (sample_marker stalled) ss) (CHR ''S'') = length ss"
  by (induction ss) (auto simp: sample_marker_def)

lemma longest_free_count:
  "longest_stall_free_sequence s \<le> count_list s (CHR ''F'')"
proof -
  have "count_list (replicate n c) c = n" for n and c :: char by (induction n) auto
  moreover have "sublist (replicate (longest_stall_free_sequence s) (CHR ''F'')) s"
    using longest_free_iff[of "longest_stall_free_sequence s" s] by simp
  ultimately show ?thesis using sublist_count[of _ s "CHR ''F''"] by metis
qed

lemma analyze_case_parts:
  assumes "analyze_case fs dir override = Inr c"
  obtains samples results records phases w1 w2 w3 classes summaries where
    "load_samples fs dir = Inr (samples, results)" "load_iteration_records fs dir = Inr (records, w1)"
    "load_phase_records fs dir = Inr (phases, w2)"
    "cs_affected c = filter (is_stall (cs_threshold c)) records" "cs_records c = length records"
    "cs_stalls c = length (cs_affected c)" "cs_samples c = length samples"
    "cs_sequence c = map (sample_marker (cs_affected c)) samples"
    "cs_bad_samples c = length (filter (\<lambda>s. sample_marker (cs_affected c) s = CHR ''S'') samples)"
    "cs_longest_free c = longest_stall_free_sequence (cs_sequence c)"
    "cs_max_stalls c = max_group (group_by iteration_sample (cs_affected c))"
    "cs_ranks c = sorted_items (counter (map it_max_rank (cs_affected c)))"
    "sample_classes (cs_affected c) samples = Inr classes"
    "cs_isolated c = count_list classes ''isolated''" "cs_multiple c = count_list classes ''multiple''"
    "cs_nearly_all c = count_list classes ''nearly_all''"
    "analyze_phase_records phases (map s_key samples) (Some (map iteration_key (cs_affected c)))
       = Inr (cs_with_phase c, summaries, cs_phase_events c, cs_cause c)"
    "percent (int (cs_bad_samples c)) (int (cs_samples c)) = Inr (cs_bad_percent c)"
    "percent (int (cs_stalls c)) (cs_iterations c) = Inr (cs_stall_percent c)"
    "cs_iterations c = (\<Sum>s\<leftarrow>samples. s_iterations s)"
proof -
  show ?thesis
    using assms unfolding analyze_case_def
    by (auto simp: bindR_eq_Inr_iff Let_def split: prod.splits intro!: that)
qed

text \<open>C9: the counts of a case agree with each other: the marked samples are the bad ones, each bad
  sample is in one of the three classes, the longest stall-free sequence has no bad sample, the rank
  frequencies add up to the stalled iterations, and no more of these have phase data.\<close>

theorem case_counts_agree:
  assumes "analyze_case fs dir override = Inr c"
  shows "length (cs_sequence c) = cs_samples c \<and> count_list (cs_sequence c) (CHR ''S'') = cs_bad_samples c
    \<and> cs_isolated c + cs_multiple c + cs_nearly_all c = cs_bad_samples c
    \<and> cs_longest_free c + cs_bad_samples c \<le> cs_samples c
    \<and> cs_stalls c = length (cs_affected c) \<and> cs_stalls c \<le> cs_records c \<and> cs_max_stalls c \<le> cs_stalls c
    \<and> (\<Sum>p\<leftarrow>cs_ranks c. snd p) = cs_stalls c \<and> cs_with_phase c \<le> cs_stalls c"
proof -
  from analyze_case_parts[OF assms] obtain samples records phases classes summaries where p:
    "cs_affected c = filter (is_stall (cs_threshold c)) records" "cs_records c = length records"
    "cs_stalls c = length (cs_affected c)" "cs_samples c = length samples"
    "cs_sequence c = map (sample_marker (cs_affected c)) samples"
    "cs_bad_samples c = length (filter (\<lambda>s. sample_marker (cs_affected c) s = CHR ''S'') samples)"
    "cs_longest_free c = longest_stall_free_sequence (cs_sequence c)"
    "cs_max_stalls c = max_group (group_by iteration_sample (cs_affected c))"
    "cs_ranks c = sorted_items (counter (map it_max_rank (cs_affected c)))"
    "sample_classes (cs_affected c) samples = Inr classes"
    "cs_isolated c = count_list classes ''isolated''" "cs_multiple c = count_list classes ''multiple''"
    "cs_nearly_all c = count_list classes ''nearly_all''"
    "analyze_phase_records phases (map s_key samples) (Some (map iteration_key (cs_affected c)))
       = Inr (cs_with_phase c, summaries, cs_phase_events c, cs_cause c)"
    by metis
  let ?gs = "phase_groups phases (Some (map iteration_key (cs_affected c)))"
  have "fst ` set ?gs \<subseteq> iteration_key ` set (cs_affected c)"
    by (auto simp: phase_group_keys(2) phase_kept_def)
  then have "card (fst ` set ?gs) \<le> card (set (map iteration_key (cs_affected c)))"
    by (intro card_mono) auto
  also have "\<dots> \<le> length (map iteration_key (cs_affected c))" by (rule card_length)
  finally have "card (set (map fst ?gs)) \<le> cs_stalls c" using p(3) by simp
  then have w: "cs_with_phase c \<le> cs_stalls c"
    using phase_events_of(1)[OF p(14)] distinct_card[OF phase_group_keys(1)] by simp
  have f: "cs_stalls c \<le> cs_records c" using p(1-3) by (metis length_filter_le)
  show ?thesis
    using w f classes_bad[OF p(10)] markers_count[of "cs_affected c" samples]
      longest_free_count[of "cs_sequence c"] max_group_le[of iteration_sample "cs_affected c"]
    by (simp add: p(3-9,11-13) sum_sorted_items counter_total)
qed

text \<open>A case of one sample with two iterations, one of them stalled.\<close>

definition sample_case_fs :: fs where
  "sample_case_fs = [([''d''], Dir),
     ([''d'', ''ghalo.json''], File ''{\"results\":[{\"halo_words\":8,\"iterations\":2,\"metadata\":{}}]}''),
     ([''d'', ''iteration-times.csv''], File (csv_write [ITERATION_COLUMNS,
        [''8'', ''1'', ''0'', ''1'', ''3'', ''RCCL'', ''conservative'', ''4''],
        [''8'', ''1'', ''1'', ''0'', ''2'', ''RCCL'', ''conservative'', ''4'']]))]"

theorem case_counts_agree_witness:
  "\<exists>c. analyze_case sample_case_fs [''d''] (Some (Fin 100)) = Inr c \<and> cs_stalls c = 1 \<and> (\<Sum>p\<leftarrow>cs_ranks c. snd p) = 1"
proof -
  let ?a = "analyze_case sample_case_fs [''d''] (Some (Fin 100))"
  have "case ?a of Inr c \<Rightarrow> cs_stalls c = 1 | _ \<Rightarrow> False" by code_simp
  then obtain c where c: "?a = Inr c" "cs_stalls c = 1" by (auto split: sum.splits)
  then show ?thesis using case_counts_agree[OF c(1)] by auto
qed

end
