(* ===== verification/RcclCompare.thy ===== *)
theory RcclCompare
  imports StallReport
begin

text \<open>
  \<^verbatim>\<open>tools/compare_rccl_versions.py\<close>: the stall summaries of three ROCm stacks side
  by side.  A case must carry the metadata of the stack it claims, and all three stacks must
  be there exactly once.  Functions whose names another tool uses too carry the prefix
  \<open>rccl_\<close>.
\<close>

definition EXPECTED_CODES :: "(string \<times> string) list" where
  "EXPECTED_CODES = [(''6.4.2'', ''22203''), (''7.0.2'', ''22606''), (''7.2.0'', ''22707'')]"

definition VERSION_ORDER :: "string list" where
  "VERSION_ORDER = [''6.4.2'', ''7.0.2'', ''7.2.0'']"

record version_summary =
  vs_version :: string
  vs_expected :: string
  vs_observed :: string
  vs_dir :: path
  vs_case :: case_summary
  vs_events :: nat
  vs_median_event :: json
  vs_max_event :: nat
  vs_phase_counts :: "(string, nat) dict"
  vs_fast_median :: "pyfloat option"
  vs_validation :: bool
  vs_hip :: json
  vs_rccl :: json
  vs_plugin :: json

section \<open>Inputs\<close>

definition rccl_normalize_rocm :: "string \<Rightarrow> string" where
  "rccl_normalize_rocm value = removeprefix ''rocm/'' (removeprefix ''rocm-'' (strip value))"

definition rccl_result_dirs_of :: "fs \<Rightarrow> string \<Rightarrow> path list res" where
  "rccl_result_dirs_of fs text = (let p = Path text in
     if fs_exists fs (child p ''ghalo.json'') then Inr [p]
     else if fs_is_dir fs p then Inr (bundles_below fs p)
     else Inl (RCCLVersionCompareError (''missing result path: '' @ str_path p)))"

definition rccl_result_dirs_from_inputs :: "(path \<Rightarrow> path) \<Rightarrow> fs \<Rightarrow> string list \<Rightarrow> path list res" where
  "rccl_result_dirs_from_inputs resolve fs inputs =
     bindR (traverse (rccl_result_dirs_of fs) inputs) (\<lambda>found. Inr (unique_paths resolve (concat found)))"

definition rccl_discover_result_dirs ::
    "(path \<Rightarrow> path) \<Rightarrow> fs \<Rightarrow> path \<Rightarrow> string \<Rightarrow> string \<Rightarrow> path list" where
  "rccl_discover_result_dirs resolve fs base_dir sys category =
     (let base = child (child base_dir ''results'') sys in
      if \<not> fs_exists fs base then []
      else unique_paths resolve (concat (map (\<lambda>v.
        let pattern_base = child (child base (''rocm-'' @ v)) category in
        if fs_exists fs pattern_base
        then filter (\<lambda>p. sublist (''borg-rccl-version-rocm-'' @ v) (path_name p)) (bundles_below fs pattern_base)
        else []) VERSION_ORDER)))"

text \<open>The non-empty list of results of a case; the rest of the payload is not used.\<close>

definition rccl_load_json :: "fs \<Rightarrow> path \<Rightarrow> json list res" where
  "rccl_load_json fs dir = (let p = child dir ''ghalo.json'' in
     if \<not> fs_exists fs p \<or> is_empty_file fs p
     then Inl (RCCLVersionCompareError (''missing or empty ghalo.json: '' @ str_path p))
     else bindR (fs_text fs p) (\<lambda>text.
       bindR (of_option ValueError (json_loads text)) (\<lambda>payload.
       bindR (as_obj payload) (\<lambda>d. case jget d ''results'' JNull of
           JList (x # xs) \<Rightarrow> Inr (x # xs)
         | _ \<Rightarrow> Inl (RCCLVersionCompareError (''ghalo.json lacks results: '' @ str_path p))))))"

section \<open>Stall events\<close>

definition fast_value :: "json \<Rightarrow> (sample_key \<times> pyfloat) res" where
  "fast_value result =
     bindR (sample_key_of result) (\<lambda>key.
     bindR (json_get result ''max_average_seconds'' (JFloat (Fin 0))) (\<lambda>v.
     bindR (json_float v) (\<lambda>x. Inr (key, fmul x (Fin 1000000)))))"

definition sample_fast_median_us :: "json list \<Rightarrow> sample_key list \<Rightarrow> pyfloat option res" where
  "sample_fast_median_us results stalled =
     bindR (traverse fast_value results) (\<lambda>kvs.
     let values = map snd (filter (\<lambda>(k, _). k \<notin> set stalled) kvs); fallback = map snd kvs
     in if values \<noteq> [] then bindR (median values) (\<lambda>m. Inr (Some m)) else if_any fallback (median fallback))"

text \<open>The lengths of the runs of consecutive iteration indices in a sorted list.\<close>

fun run_lengths_from :: "nat \<Rightarrow> int option \<Rightarrow> int list \<Rightarrow> nat list" where
  "run_lengths_from cur previous [] = (if cur \<noteq> 0 then [cur] else [])"
| "run_lengths_from cur previous (i # js) =
     (if previous = None \<or> Some (i - 1) = previous then run_lengths_from (Suc cur) (Some i) js
      else cur # run_lengths_from 1 (Some i) js)"

definition event_lengths :: "iteration_id list \<Rightarrow> nat list" where
  "event_lengths affected =
     concat (map (\<lambda>g. run_lengths_from 0 None (sort (map (\<lambda>(h, s, i). i) (snd g))))
       (group_by (\<lambda>(h, s, i). (h, s)) affected))"

text \<open>\<^verbatim>\<open>statistics.median\<close> of integers: an integer, or the float midpoint.\<close>

definition median_count :: "nat list \<Rightarrow> json res" where
  "median_count xs = (let d = sort xs; n = length d in
     if n = 0 then Inr JNull
     else if odd n then Inr (JInt (int (d ! (n div 2))))
     else Inr (JFloat (to_float (of_nat (d ! (n div 2 - 1) + d ! (n div 2)) / 2))))"

section \<open>Validation\<close>

definition version_value :: "json \<Rightarrow> string res" where
  "version_value v = (case v of JStr s \<Rightarrow> Inr (rccl_normalize_rocm s) | _ \<Rightarrow> Inl AttributeError)"

definition infer_version :: "path \<Rightarrow> json \<Rightarrow> (string, string) dict \<Rightarrow> string res" where
  "infer_version dir first_metadata md =
     (if or_str (map_of md ''requested_rocm_version'') [] \<noteq> []
      then Inr (rccl_normalize_rocm (or_str (map_of md ''requested_rocm_version'') []))
      else bindR (json_get first_metadata ''rocm_version'' (JStr [])) (\<lambda>v.
        version_value (or_json v (JStr (infer_rocm_from_path dir)))))"

text \<open>\<^verbatim>\<open>"RCCL" in backend\<close>.\<close>

definition mentions_rccl :: "json \<Rightarrow> bool res" where
  "mentions_rccl b = (case b of
     JStr s \<Rightarrow> Inr (sublist ''RCCL'' s)
   | JList xs \<Rightarrow> Inr (JStr ''RCCL'' \<in> set xs)
   | JObj d \<Rightarrow> Inr (map_of d ''RCCL'' \<noteq> None)
   | _ \<Rightarrow> Inl TypeError)"

definition compare_error :: "path \<Rightarrow> string \<Rightarrow> exn" where
  "compare_error dir msg = RCCLVersionCompareError (str_path dir @ msg)"

definition validate_payload_result :: "path \<Rightarrow> string \<Rightarrow> json \<Rightarrow> unit res" where
  "validate_payload_result dir v result =
     bindR (as_obj result) (\<lambda>d.
     bindR (mentions_rccl (jget d ''backend'' (JStr []))) (\<lambda>is_rccl.
     if \<not> is_rccl then Inl (compare_error dir '' is not an RCCL result'')
     else bindR (as_obj (jget d ''metadata'' (JObj []))) (\<lambda>md.
       bindR (version_value (jget md ''rocm_version'' (JStr v))) (\<lambda>rv.
       if rv \<noteq> [] \<and> rv \<noteq> v
       then Inl (compare_error dir ('' mixes ROCm metadata: path/requested '' @ v @ '', result '' @ rv))
       else if jget md ''rccl_sync_mode'' (JStr []) \<noteq> JStr ''conservative''
       then Inl (compare_error dir '' is not an RCCL conservative comparison run'')
       else Inr ()))))"

definition validate_payload :: "path \<Rightarrow> json list \<Rightarrow> (string, string) dict \<Rightarrow> string \<Rightarrow> unit res" where
  "validate_payload dir results md v = (case map_of EXPECTED_CODES v of
     None \<Rightarrow> Inl (RCCLVersionCompareError (''unexpected ROCm version for comparison: '' @ v))
   | Some expected \<Rightarrow>
      (let observed = dict_get md ''observed_rccl_version_code'' [] in
       if observed \<noteq> [] \<and> observed \<noteq> expected
       then Inl (compare_error dir ('' expected RCCL version code '' @ expected @ '' for ROCm '' @ v
              @ '', observed '' @ observed))
       else bindR (traverse (validate_payload_result dir v) results) (\<lambda>_. Inr ())))"

section \<open>Summaries\<close>

definition validation_flag :: "json \<Rightarrow> bool res" where
  "validation_flag result =
     bindR (as_obj result) (\<lambda>d. bindR (json_get (jget d ''metadata'' (JObj [])) ''validation_passed'' (JBool False))
       (\<lambda>v. Inr (json_bool v)))"

text \<open>\<^verbatim>\<open>all(...)\<close> stops at the first falsity.\<close>

fun all_flags :: "json list \<Rightarrow> bool res" where
  "all_flags [] = Inr True"
| "all_flags (x # xs) = bindR (validation_flag x) (\<lambda>b. if b then all_flags xs else Inr False)"

definition summarize_result :: "fs \<Rightarrow> pyfloat option \<Rightarrow> path \<Rightarrow> version_summary res" where
  "summarize_result fs threshold dir =
     bindR (rccl_load_json fs dir) (\<lambda>results.
     bindR (parse_key_value_file fs (child dir ''result-metadata.txt'')) (\<lambda>md.
     bindR (json_get (hd results) ''metadata'' (JObj [])) (\<lambda>first_metadata.
     bindR (infer_version dir first_metadata md) (\<lambda>v.
     bindR (validate_payload dir results md v) (\<lambda>_.
     bindR (as_obj first_metadata) (\<lambda>fmd.
     bindR (analyze_case fs dir threshold) (\<lambda>c.
     let affected = map iteration_key (cs_affected c); lengths = event_lengths affected;
         expected = dict_get EXPECTED_CODES v [];
         observed = dict_get md ''observed_rccl_version_code'' []
     in
     bindR (all_flags results) (\<lambda>passed.
     bindR (median_count lengths) (\<lambda>med.
     bindR (sample_fast_median_us results (map (\<lambda>(h, s, i). (h, s)) affected)) (\<lambda>fast.
     Inr \<lparr>vs_version = v, vs_expected = expected,
          vs_observed = (if observed \<noteq> [] then observed
            else if json_bool (jget fmd ''rccl_version'' JNull) then expected else []),
          vs_dir = dir, vs_case = c, vs_events = length lengths, vs_median_event = med,
          vs_max_event = foldl max 0 lengths,
          vs_phase_counts = sorted_items (counter (map pe_phase (cs_phase_events c))),
          vs_fast_median = fast, vs_validation = passed,
          vs_hip = jget fmd ''hip_runtime_version'' (JStr []),
          vs_rccl = jget fmd ''rccl_version'' (JStr []),
          vs_plugin = or_json (opt_str (map_of md ''libnccl_net_realpath''))
            (or_json (opt_str (map_of md ''olcf_ofi_nccl_root'')) (jget fmd ''rccl_plugin_root'' (JStr [])))\<rparr>))))))))))"

text \<open>Each stack once, in the order of the comparison.\<close>

definition add_version :: "(string, version_summary) dict \<Rightarrow> version_summary \<Rightarrow> (string, version_summary) dict res"
  where
  "add_version d s = (if map_of d (vs_version s) \<noteq> None
     then Inl (RCCLVersionCompareError (''duplicate ROCm version: '' @ vs_version s))
     else Inr (AList.update (vs_version s) s d))"

definition validate_complete_matrix :: "version_summary list \<Rightarrow> version_summary list res" where
  "validate_complete_matrix summaries =
     bindR (foldR add_version [] summaries) (\<lambda>d.
     let missing = filter (\<lambda>v. map_of d v = None) VERSION_ORDER in
     if missing \<noteq> []
     then Inl (RCCLVersionCompareError (''missing required ROCm result(s): '' @ join '', '' missing))
     else Inr (map (\<lambda>v. the (map_of d v)) VERSION_ORDER))"

section \<open>Outputs\<close>

definition fmt_json_number :: "json \<Rightarrow> string" where
  "fmt_json_number v = (case v of JInt n \<Rightarrow> format_fixed 3 (to_float (of_int n))
     | JFloat x \<Rightarrow> format_fixed 3 x | _ \<Rightarrow> ''n/a'')"

definition or_unknown :: "json \<Rightarrow> string" where
  "or_unknown v = json_str (or_json v (JStr ''unknown''))"

definition rccl_overview :: "version_summary \<Rightarrow> string" where
  "rccl_overview s = table_cells [vs_version s,
     json_str (or_json (JStr (vs_observed s)) (vs_rccl s)), string_of_int (cs_iterations (vs_case s)),
     nat_text (cs_stalls (vs_case s)), format_fixed 3 (cs_stall_percent (vs_case s)),
     nat_text (cs_bad_samples (vs_case s)) @ ''/'' @ nat_text (cs_samples (vs_case s)),
     nat_text (vs_events s), format_optional (cs_median (vs_case s)), format_optional (cs_max (vs_case s)),
     format_optional (vs_fast_median s)]"

definition rccl_section :: "version_summary \<Rightarrow> string list" where
  "rccl_section s =
     [''## ROCm '' @ vs_version s, [], ''- Result: `'' @ str_path (vs_dir s) @ ''`'',
      ''- Expected RCCL version code: '' @ vs_expected s,
      ''- Observed RCCL version code: '' @ or_str (Some (vs_observed s)) ''unknown'',
      ''- HIP runtime: '' @ or_unknown (vs_hip s), ''- RCCL version: '' @ or_unknown (vs_rccl s),
      ''- Plugin path: `'' @ or_unknown (vs_plugin s) @ ''`'',
      ''- Validation passed: '' @ (if vs_validation s then ''True'' else ''False''),
      ''- Median event length: '' @ fmt_json_number (vs_median_event s) @ '' iterations'',
      ''- Max event length: '' @ nat_text (vs_max_event s) @ '' iterations'',
      ''- Dominant phase counts: `'' @ json_line (counts_json (\<lambda>x. x) (vs_phase_counts s)) @ ''`'',
      ''- Rank-event classifications: `''
        @ json_line (counts_json (\<lambda>x. x) (ra_classes (cs_rank_analysis (vs_case s)))) @ ''`'', []]
     @ (if cs_warnings (vs_case s) = [] then []
        else ''Warnings:'' # map (\<lambda>w. ''- '' @ w) (cs_warnings (vs_case s)) @ [[]])"

definition rccl_markdown_report :: "string \<Rightarrow> version_summary list \<Rightarrow> string" where
  "rccl_markdown_report now ss = join [LF]
     ([''# Borg RCCL ROCm Stack Comparison'', [], ''Generated: '' @ now, [],
       ''This is a ROCm/RCCL stack comparison, not a pure RCCL-only test. HIP runtime, RCCL, and other ROCm components change together.'',
       ''Zero observed stalls in this sample is not proof that a stack is immune to stalls; compare the sample and iteration counts.'',
       [],
       ''| ROCm | RCCL | Iterations | Stalls | Stall % | Samples affected | Events | Median stall us | Max stall us | Fast median us |'',
       ''| --- | --- | ---: | ---: | ---: | ---: | ---: | ---: | ---: | ---: |'']
      @ map rccl_overview ss @ [[]] @ concat (map rccl_section ss))"

definition rccl_cells :: "version_summary \<Rightarrow> (string \<times> json) list" where
  "rccl_cells s = (let c = vs_case s in
     [(''rocm_version'', JStr (vs_version s)), (''expected_rccl_code'', JStr (vs_expected s)),
      (''observed_rccl_code'', JStr (vs_observed s)), (''result_dir'', JStr (str_path (vs_dir s))),
      (''total_samples'', nat_json (cs_samples c)), (''total_iterations'', JInt (cs_iterations c)),
      (''stalled_iterations'', nat_json (cs_stalls c)), (''stall_percentage'', JFloat (cs_stall_percent c)),
      (''samples_containing_stalls'', nat_json (cs_bad_samples c)), (''stall_events'', nat_json (vs_events s)),
      (''median_stall_us'', opt_float (cs_median c)), (''max_stall_us'', opt_float (cs_max c)),
      (''median_event_length'', vs_median_event s), (''max_event_length'', nat_json (vs_max_event s)),
      (''fast_path_median_us'', opt_float (vs_fast_median s)), (''validation_passed'', JBool (vs_validation s)),
      (''hip_runtime_version'', vs_hip s), (''rccl_version'', vs_rccl s), (''plugin_path'', vs_plugin s)])"

definition rccl_csv :: "version_summary list \<Rightarrow> string" where
  "rccl_csv ss = csv_write (map fst (rccl_cells (hd ss))
     # map (\<lambda>s. map (\<lambda>p. cell_text (snd p)) (rccl_cells s)) ss)"

definition rccl_json :: "string \<Rightarrow> version_summary list \<Rightarrow> string" where
  "rccl_json now ss = json_dumps True (JObj [(''generated_utc'', JStr now),
     (''cases'', JList (map (\<lambda>s. JObj (rccl_cells s @
        [(''label'', JStr (path_name (vs_dir s))),
         (''dominant_phase_counts'', counts_json (\<lambda>x. x) (vs_phase_counts s)),
         (''rank_event_classifications'', counts_json (\<lambda>x. x) (ra_classes (cs_rank_analysis (vs_case s)))),
         (''warnings'', JList (map JStr (cs_warnings (vs_case s))))])) ss))]) @ [LF]"

definition rccl_write_outputs :: "string \<Rightarrow> fs \<Rightarrow> path \<Rightarrow> version_summary list \<Rightarrow> fs res" where
  "rccl_write_outputs now fs dir ss =
     bindR (fs_mkdirs fs dir) (\<lambda>fs.
     bindR (fs_write fs (child dir ''rccl-version-comparison.md'') (rccl_markdown_report now ss @ [LF])) (\<lambda>fs.
     bindR (fs_write fs (child dir ''rccl-version-comparison.csv'') (rccl_csv ss)) (\<lambda>fs.
     fs_write fs (child dir ''rccl-version-comparison.json'') (rccl_json now ss))))"

record compare_args =
  ca_inputs :: "string list"
  ca_system :: string
  ca_category :: string
  ca_threshold :: "pyfloat option"
  ca_output_dir :: string

definition rccl_run :: "(path \<Rightarrow> path) \<Rightarrow> path \<Rightarrow> string \<Rightarrow> compare_args \<Rightarrow> io \<Rightarrow> io res" where
  "rccl_run resolve cwd now args s =
     bindR (if ca_inputs args \<noteq> [] then rccl_result_dirs_from_inputs resolve (io_files s) (ca_inputs args)
            else Inr (rccl_discover_result_dirs resolve (io_files s) cwd (ca_system args) (ca_category args))) (\<lambda>dirs.
     bindR (traverse (summarize_result (io_files s) (ca_threshold args)) dirs) (\<lambda>found.
     bindR (validate_complete_matrix found) (\<lambda>ss.
     bindR (rccl_write_outputs now (io_files s) (Path (ca_output_dir args)) ss) (\<lambda>fs.
     Inr (s\<lparr>io_files := fs, io_out := io_out s @ rccl_markdown_report now ss @ [LF] @ LF
        # ''Wrote RCCL version comparison to '' @ ca_output_dir args @ [LF]\<rparr>)))))"

definition rccl_handled :: "exn \<Rightarrow> bool" where
  "rccl_handled e \<longleftrightarrow> stall_handled e \<or> (case e of RCCLVersionCompareError _ \<Rightarrow> True | _ \<Rightarrow> False)"

definition rccl_main :: "(path \<Rightarrow> path) \<Rightarrow> path \<Rightarrow> string \<Rightarrow> compare_args \<Rightarrow> io \<Rightarrow> stall_outcome" where
  "rccl_main resolve cwd now args s = (case rccl_run resolve cwd now args s of
     Inr s' \<Rightarrow> Completed s'
   | Inl e \<Rightarrow> if rccl_handled e then Failed e else Uncaught e)"

section \<open>Events are maximal runs of consecutive iterations\<close>

lemma run_lengths_sum: "sum_list (run_lengths_from cur p xs) = cur + length xs"
  by (induction cur p xs rule: run_lengths_from.induct) auto

text \<open>The state of the loop: the current event ends at \<open>p\<close>, and the rest is larger.\<close>

lemma run_lengths_count:
  assumes "sorted_wrt (<) (p # xs)" "0 < cur"
  shows "length (run_lengths_from cur (Some p) xs) = Suc (length (filter (\<lambda>i. i - 1 \<notin> insert p (set xs)) xs))"
  using assms
proof (induction xs arbitrary: cur p)
  case (Cons i js)
  have gt: "\<forall>j \<in> set js. i < j" "p < i" using Cons.prems(1) by auto
  have IH: "length (run_lengths_from c (Some i) js) = Suc (length (filter (\<lambda>j. j - 1 \<notin> insert i (set js)) js))" if "0 < c" for c
    using Cons.IH[of i c] Cons.prems(1) that by simp
  have "(j - 1 \<in> insert p (set (i # js))) = (j - 1 \<in> insert i (set js))" if "j \<in> set js" for j
    using gt that by force
  then have rest: "filter (\<lambda>j. j - 1 \<notin> insert p (set (i # js))) js = filter (\<lambda>j. j - 1 \<notin> insert i (set js)) js"
    by (intro filter_cong) auto
  have first: "i - 1 \<notin> set js" using gt by force
  show ?case using IH[of "Suc cur"] IH[of 1] rest first by simp
qed simp

lemma block_starts_at_least:
  assumes "\<forall>j \<in> set js. (i::int) < j" "\<forall>j < n. a + int j \<in> set (i # js)"
  shows "(\<forall>j < n. a + int j \<in> set js) \<or> (a = i \<and> (\<forall>j \<in> {1..<n}. i + int j \<in> set js))"
proof (cases "\<forall>j < n. a + int j \<in> set js")
  case False
  then obtain j where j: "j < n" "a + int j = i" using assms(2) by auto
  have "a + int 0 \<in> set (i # js)" using assms(2) j(1) by (metis gr_implies_not0 gr0I)
  then have a: "a = i" using assms(1) j(2) by force
  have "i + int k \<in> set js" if "k \<in> {1..<n}" for k using assms(2) that a by force
  then show ?thesis using a by blast
qed simp

lemma block_Cons:
  assumes gt: "\<forall>j \<in> set js. (i::int) < j" and n: "0 < n"
  shows "(\<exists>a. \<forall>j < n. a + int j \<in> set (i # js)) \<longleftrightarrow>
      (\<exists>k. (\<forall>j \<in> {1..k}. i + int j \<in> set js) \<and> n \<le> 1 + k) \<or> (\<exists>a. \<forall>j < n. a + int j \<in> set js)"
    (is "?l \<longleftrightarrow> ?r1 \<or> ?r2")
proof
  assume ?l
  then obtain a where "\<forall>j < n. a + int j \<in> set (i # js)" by blast
  from block_starts_at_least[OF gt this] show "?r1 \<or> ?r2"
  proof
    assume "a = i \<and> (\<forall>j \<in> {1..<n}. i + int j \<in> set js)"
    then have "\<forall>j \<in> {1..n - 1}. i + int j \<in> set js" using n by auto
    then show ?thesis by (intro disjI1 exI[of _ "n - 1"]) simp
  qed blast
next
  assume "?r1 \<or> ?r2"
  then show ?l
  proof
    assume ?r1
    then obtain k where k: "\<forall>j \<in> {1..k}. i + int j \<in> set js" "n \<le> 1 + k" by blast
    have "i + int j \<in> set (i # js)" if "j < n" for j using k that by (cases "j = 0") auto
    then show ?l by blast
  qed auto
qed

lemma no_step:
  assumes "(p::int) + 1 \<notin> S"
  shows "(\<exists>k. (\<forall>j \<in> {1..k}. p + int j \<in> S) \<and> n \<le> cur + k) \<longleftrightarrow> n \<le> cur"
proof
  assume "\<exists>k. (\<forall>j \<in> {1..k}. p + int j \<in> S) \<and> n \<le> cur + k"
  then obtain k where k: "\<forall>j \<in> {1..k}. p + int j \<in> S" "n \<le> cur + k" by blast
  have "k = 0" using k(1)[rule_format, of 1] assms by (cases k) auto
  then show "n \<le> cur" using k by simp
qed (auto intro: exI[of _ 0])

lemma join_cases:
  "a = (K \<or> B) \<Longrightarrow> L = (c \<or> K) \<Longrightarrow> bl = (K1 \<or> B) \<Longrightarrow> (c \<Longrightarrow> K) \<Longrightarrow> (K1 \<Longrightarrow> K) \<Longrightarrow> a = (L \<or> bl)"
  by blast

lemma run_lengths_long:
  assumes "sorted_wrt (<) (p # xs)" "0 < cur" "0 < n"
  shows "(\<exists>l \<in> set (run_lengths_from cur (Some p) xs). n \<le> l) \<longleftrightarrow>
    (\<exists>k. (\<forall>j \<in> {1..k}. p + int j \<in> set xs) \<and> n \<le> cur + k) \<or> (\<exists>a. \<forall>j < n. a + int j \<in> set xs)"
  using assms(1,2)
proof (induction xs arbitrary: cur p)
  case Nil
  have "\<not> (\<exists>a. \<forall>j < n. a + int j \<in> set [])" using assms(3) by auto
  then show ?case using no_step[of p "set []"] Nil by auto
next
  case (Cons i js)
  have gt: "\<forall>j \<in> set js. i < j" "p < i" using Cons.prems(1) by auto
  have IH: "(\<exists>l \<in> set (run_lengths_from c (Some i) js). n \<le> l) \<longleftrightarrow>
    (\<exists>k. (\<forall>j \<in> {1..k}. i + int j \<in> set js) \<and> n \<le> c + k) \<or> (\<exists>a. \<forall>j < n. a + int j \<in> set js)" if "0 < c" for c
    using Cons.IH[of i c] Cons.prems(1) that by simp
  note block = block_Cons[OF gt(1) assms(3)]
  show ?case
  proof (cases "i - 1 = p")
    case True
    have "(\<exists>k. (\<forall>j \<in> {1..k}. p + int j \<in> set (i # js)) \<and> n \<le> cur + k)
        \<longleftrightarrow> n \<le> cur \<or> (\<exists>k. (\<forall>j \<in> {1..k}. i + int j \<in> set js) \<and> n \<le> Suc cur + k)" (is "?l \<longleftrightarrow> ?r")
    proof
      assume ?l
      then obtain k where k: "\<forall>j \<in> {1..k}. p + int j \<in> set (i # js)" "n \<le> cur + k" by blast
      show ?r
      proof (cases k)
        case (Suc m)
        have "i + int j \<in> set js" if "j \<in> {1..m}" for j
          using k(1)[rule_format, of "Suc j"] that Suc True by auto
        then show ?thesis using k(2) Suc by (intro disjI2 exI[of _ m]) auto
      qed (use k in simp)
    next
      assume ?r
      then show ?l
      proof
        assume "\<exists>k. (\<forall>j \<in> {1..k}. i + int j \<in> set js) \<and> n \<le> Suc cur + k"
        then obtain k where k: "\<forall>j \<in> {1..k}. i + int j \<in> set js" "n \<le> Suc cur + k" by blast
        have "p + int j \<in> set (i # js)" if jk: "j \<in> {1..Suc k}" for j
        proof (cases "j = 1")
          case False
          then obtain m where m: "j = Suc m" "m \<in> {1..k}" using jk by (cases j) auto
          then show ?thesis using k(1)[rule_format, OF m(2)] True by (simp add: algebra_simps)
        qed (use True in auto)
        then show ?l using k(2) by (intro exI[of _ "Suc k"]) auto
      qed (auto intro: exI[of _ 0])
    qed
    then have L: "(\<exists>k. (\<forall>j \<in> {1..k}. p + int j \<in> set (i # js)) \<and> n \<le> cur + k)
        \<longleftrightarrow> n \<le> cur \<or> (\<exists>k. (\<forall>j \<in> {1..k}. i + int j \<in> set js) \<and> n \<le> Suc cur + k)" .
    have k0: "n \<le> cur \<Longrightarrow> \<exists>k. (\<forall>j \<in> {1..k}. i + int j \<in> set js) \<and> n \<le> Suc cur + k"
      by (intro exI[of _ 0]) simp
    have k1: "\<exists>k. (\<forall>j \<in> {1..k}. i + int j \<in> set js) \<and> n \<le> 1 + k
        \<Longrightarrow> \<exists>k. (\<forall>j \<in> {1..k}. i + int j \<in> set js) \<and> n \<le> Suc cur + k"
      by (erule exE, rule exI) auto
    have "run_lengths_from cur (Some p) (i # js) = run_lengths_from (Suc cur) (Some i) js" using True by simp
    then show ?thesis unfolding block using join_cases[OF IH[OF zero_less_Suc] L refl k0 k1] by simp
  next
    case False
    have "p + 1 \<notin> set (i # js)" using gt False by force
    note no_step[OF this, of n cur]
    then show ?thesis using IH[of 1] block False by auto
  qed
qed

lemma runs_of_list:
  assumes "sorted_wrt (<) xs"
  shows "length (run_lengths_from 0 None xs) = length (filter (\<lambda>i. i - 1 \<notin> set xs) xs)"
    "0 < n \<Longrightarrow> (\<exists>l \<in> set (run_lengths_from 0 None xs). n \<le> l) \<longleftrightarrow> (\<exists>a. \<forall>j < n. a + int j \<in> set xs)"
proof -
  consider "xs = []" | i js where "xs = i # js" by (cases xs) auto
  then have "length (run_lengths_from 0 None xs) = length (filter (\<lambda>i. i - 1 \<notin> set xs) xs)
    \<and> (0 < n \<longrightarrow> ((\<exists>l \<in> set (run_lengths_from 0 None xs). n \<le> l) \<longleftrightarrow> (\<exists>a. \<forall>j < n. a + int j \<in> set xs)))"
  proof cases
    case 2
    then have gt: "\<forall>j \<in> set js. i < j" using assms by simp
    have i: "i - 1 \<notin> set (i # js)" using gt by force
    have "length (run_lengths_from (Suc 0) (Some i) js) = length (filter (\<lambda>j. j - 1 \<notin> set xs) xs)"
      using run_lengths_count[of i js "Suc 0"] assms i 2 by simp
    then show ?thesis using 2 run_lengths_long[of i js "Suc 0" n] block_Cons[OF gt, of n] assms by auto
  qed auto
  then show "length (run_lengths_from 0 None xs) = length (filter (\<lambda>i. i - 1 \<notin> set xs) xs)"
    "0 < n \<Longrightarrow> (\<exists>l \<in> set (run_lengths_from 0 None xs). n \<le> l) \<longleftrightarrow> (\<exists>a. \<forall>j < n. a + int j \<in> set xs)" by blast+
qed

abbreviation (input) id_sample :: "iteration_id \<Rightarrow> sample_key" where "id_sample \<equiv> (\<lambda>(h, s, i). (h, s))"
abbreviation (input) id_index :: "iteration_id \<Rightarrow> int" where "id_index \<equiv> (\<lambda>(h, s, i). i)"

lemma event_lengths_alt:
  "event_lengths affected = concat (map (\<lambda>k. run_lengths_from 0 None (sort (map id_index (filter (\<lambda>x. id_sample x = k) affected))))
     (uniq (map id_sample affected)))"
proof -
  have "event_lengths affected = concat (map (\<lambda>ys. run_lengths_from 0 None (sort (map id_index ys)))
      (map snd (group_by id_sample affected)))"
    by (simp add: event_lengths_def comp_def)
  then show ?thesis unfolding map_snd_group_by by (simp add: comp_def)
qed

lemma length_filter_sort_map: "length (filter P (sort (map f xs))) = length (filter (\<lambda>x. P (f x)) xs)"
proof -
  have "length (filter P (sort (map f xs))) = size (filter_mset P (mset (map f xs)))"
    by (metis mset_filter mset_sort size_mset)
  also have "\<dots> = length (filter P (map f xs))" by (metis mset_filter size_mset)
  finally show ?thesis by (simp add: filter_map comp_def)
qed

lemma sum_list_concat: "sum_list (concat xss) = (\<Sum>xs\<leftarrow>xss. sum_list xs)"
  by (induction xss) auto

text \<open>C11: a stall event is a maximal run of consecutive stalled iterations of one sample: the events
  cover every stalled iteration once, there is one for every stalled iteration whose predecessor is
  not stalled, and one of at least \<open>n\<close> iterations exactly when \<open>n\<close> consecutive ones stalled.\<close>

theorem event_lengths_are_runs:
  assumes "distinct affected"
  shows "sum_list (event_lengths affected) = length affected
    \<and> length (event_lengths affected) = length (filter (\<lambda>(h, s, i). (h, s, i - 1) \<notin> set affected) affected)
    \<and> (0 < n \<longrightarrow> ((\<exists>l \<in> set (event_lengths affected). n \<le> l)
        \<longleftrightarrow> (\<exists>h s i. \<forall>j < n. (h, s, i + int j) \<in> set affected)))"
proof -
  let ?ks = "uniq (map id_sample affected)"
  let ?ys = "\<lambda>k. filter (\<lambda>x. id_sample x = k) affected"
  let ?xs = "\<lambda>k. sort (map id_index (?ys k))"
  let ?Q = "\<lambda>(h, s, i). (h, s, i - 1) \<notin> set affected"
  have set: "set (?xs k) = {i. (fst k, snd k, i) \<in> set affected}" for k by (cases k) force
  have "inj_on id_index (set (?ys k))" for k by (auto simp: inj_on_def)
  then have srt: "sorted_wrt (<) (?xs k)" for k
    using assms by (simp add: strict_sorted_iff distinct_map)
  have "sum_list (event_lengths affected) = (\<Sum>k\<leftarrow>?ks. sum_list (run_lengths_from 0 None (?xs k)))"
    by (simp add: event_lengths_alt sum_list_concat comp_def)
  also have "\<dots> = (\<Sum>k\<leftarrow>?ks. length (?ys k))" by (simp add: run_lengths_sum)
  also have "\<dots> = length affected" by (rule sum_length_filter) simp_all
  finally have sum: "sum_list (event_lengths affected) = length affected" .
  have one: "length (run_lengths_from 0 None (?xs k)) = length (filter (\<lambda>x. id_sample x = k) (filter ?Q affected))" for k
  proof -
    have "length (run_lengths_from 0 None (?xs k)) = length (filter (\<lambda>x. id_index x - 1 \<notin> set (?xs k)) (?ys k))"
      using runs_of_list(1)[OF srt[of k]] by (simp only: length_filter_sort_map)
    also have "filter (\<lambda>x. id_index x - 1 \<notin> set (?xs k)) (?ys k) = filter (\<lambda>x. id_sample x = k) (filter ?Q affected)"
      unfolding set filter_filter by (rule filter_cong) auto
    finally show ?thesis .
  qed
  have "length (event_lengths affected) = (\<Sum>k\<leftarrow>?ks. length (run_lengths_from 0 None (?xs k)))"
    by (simp add: event_lengths_alt length_concat comp_def)
  also have "\<dots> = length (filter ?Q affected)" unfolding one by (rule sum_length_filter) (auto intro: rev_image_eqI)
  finally have len: "length (event_lengths affected) = length (filter ?Q affected)" .
  have "(\<exists>l \<in> set (event_lengths affected). n \<le> l) \<longleftrightarrow> (\<exists>k \<in> set ?ks. \<exists>a. \<forall>j < n. a + int j \<in> set (?xs k))" if "0 < n"
    using runs_of_list(2)[OF srt that] by (simp add: event_lengths_alt)
  moreover have "(\<exists>k \<in> set ?ks. \<exists>a. \<forall>j < n. a + int j \<in> set (?xs k))
      \<longleftrightarrow> (\<exists>h s i. \<forall>j < n. (h, s, i + int j) \<in> set affected)" if "0 < n"
  proof
    assume "\<exists>h s i. \<forall>j < n. (h, s, i + int j) \<in> set affected"
    then obtain h s i where b: "\<forall>j < n. (h, s, i + int j) \<in> set affected" by blast
    then have "(h, s, i) \<in> set affected" using that by force
    then have "(h, s) \<in> set ?ks" by force
    then show "\<exists>k \<in> set ?ks. \<exists>a. \<forall>j < n. a + int j \<in> set (?xs k)" using b unfolding set by force
  qed (simp only: set mem_Collect_eq, blast)
  ultimately show ?thesis using sum len by blast
qed

theorem event_lengths_are_runs_witness:
  "length (event_lengths [(8, 1, 3), (8, 1, 4), (8, 2, 5)]) = 2 \<and> sum_list (event_lengths [(8, 1, 3), (8, 1, 4), (8, 2, 5)]) = 3"
  using event_lengths_are_runs[of "[(8, 1, 3), (8, 1, 4), (8, 2, 5)]" 1] by simp

section \<open>Validated summaries\<close>

lemma run_lengths_pos: "p = None \<or> 0 < cur \<Longrightarrow> 0 \<notin> set (run_lengths_from cur p xs)"
  by (induction cur p xs rule: run_lengths_from.induct) auto

lemma event_lengths_pos: "0 \<notin> set (event_lengths affected)"
  using run_lengths_pos[of None 0] by (simp add: event_lengths_alt)

lemma event_lengths_sum: "sum_list (event_lengths affected) = length affected"
proof -
  have "sum_list (event_lengths affected) = (\<Sum>k\<leftarrow>uniq (map id_sample affected). length (filter (\<lambda>x. id_sample x = k) affected))"
    by (simp add: event_lengths_alt sum_list_concat comp_def run_lengths_sum)
  also have "\<dots> = length affected" by (rule sum_length_filter) simp_all
  finally show ?thesis .
qed

lemma length_le_sum: "0 \<notin> set ns \<Longrightarrow> length ns \<le> sum_list ns" for ns :: "nat list"
  by (induction ns) auto

lemma foldl_max_bounds:
  "(\<forall>n \<in> set ns. n \<le> foldl max m ns) \<and> m \<le> foldl max m ns \<and> foldl max m ns \<le> max m (sum_list ns)" for m :: nat
proof (induction ns arbitrary: m)
  case (Cons n ns)
  show ?case using Cons.IH[of "max m n"] by auto
qed simp

text \<open>What a result of a validated case says about itself.\<close>

definition result_of_stack :: "string \<Rightarrow> json \<Rightarrow> bool" where
  "result_of_stack v r \<longleftrightarrow> (case r of
     JObj d \<Rightarrow> mentions_rccl (jget d ''backend'' (JStr [])) = Inr True \<and>
       (case jget d ''metadata'' (JObj []) of
          JObj md \<Rightarrow> jget md ''rccl_sync_mode'' (JStr []) = JStr ''conservative''
            \<and> version_value (jget md ''rocm_version'' (JStr v)) \<in> {Inr [], Inr v}
        | _ \<Rightarrow> False)
   | _ \<Rightarrow> False)"

lemma validate_payload_result_iff: "validate_payload_result dir v r = Inr () \<longleftrightarrow> result_of_stack v r"
  by (cases r) (auto simp: validate_payload_result_def result_of_stack_def as_obj_def bindR_eq_Inr_iff
    split: json.splits if_splits)

lemma validate_payload_iff:
  "validate_payload dir rs md v = Inr () \<longleftrightarrow>
    (\<exists>expected. map_of EXPECTED_CODES v = Some expected
       \<and> dict_get md ''observed_rccl_version_code'' [] \<in> {[], expected} \<and> (\<forall>r \<in> set rs. result_of_stack v r))"
proof -
  have "(\<exists>us. traverse (validate_payload_result dir v) rs = Inr us) \<longleftrightarrow> (\<forall>r \<in> set rs. result_of_stack v r)"
  proof
    assume "\<exists>us. traverse (validate_payload_result dir v) rs = Inr us"
    then show "\<forall>r \<in> set rs. result_of_stack v r"
      by (auto simp: traverse_Inr_iff validate_payload_result_iff dest!: list_all2_in1)
  next
    assume "\<forall>r \<in> set rs. result_of_stack v r"
    then have "list_all2 (\<lambda>r u. validate_payload_result dir v r = Inr u) rs (replicate (length rs) ())"
      by (auto simp: validate_payload_result_iff list_all2_conv_all_nth)
    then show "\<exists>us. traverse (validate_payload_result dir v) rs = Inr us" by (auto simp: traverse_Inr_iff)
  qed
  then show ?thesis by (auto simp: validate_payload_def bindR_eq_Inr_iff Let_def split: option.splits)
qed

text \<open>C12: a case only enters the comparison when it belongs to a known stack: its version is one of the
  three, an observed RCCL code is the expected one, every result is an RCCL result of this version
  in conservative mode; and its events are no more, and no longer, than its stalled iterations.\<close>

theorem version_summary_sound:
  assumes "summarize_result fs threshold dir = Inr s"
  shows "vs_version s \<in> set VERSION_ORDER \<and> map_of EXPECTED_CODES (vs_version s) = Some (vs_expected s)
    \<and> vs_observed s \<in> {[], vs_expected s}
    \<and> (\<exists>results. rccl_load_json fs dir = Inr results \<and> list_all (result_of_stack (vs_version s)) results)
    \<and> vs_events s \<le> length (cs_affected (vs_case s)) \<and> vs_max_event s \<le> length (cs_affected (vs_case s))
    \<and> (vs_events s = 0 \<longleftrightarrow> cs_affected (vs_case s) = [])"
proof -
  from assms obtain results md c where
    r: "rccl_load_json fs dir = Inr results" "validate_payload dir results md (vs_version s) = Inr ()" "vs_case s = c"
      "vs_events s = length (event_lengths (map iteration_key (cs_affected c)))"
      "vs_max_event s = foldl max 0 (event_lengths (map iteration_key (cs_affected c)))"
      "vs_expected s = dict_get EXPECTED_CODES (vs_version s) []"
      "vs_observed s = dict_get md ''observed_rccl_version_code'' [] \<or> vs_observed s \<in> {[], vs_expected s}"
    unfolding summarize_result_def by (auto simp: bindR_eq_Inr_iff Let_def split: if_splits)
  from r(2) obtain expected where e: "map_of EXPECTED_CODES (vs_version s) = Some expected"
    "dict_get md ''observed_rccl_version_code'' [] \<in> {[], expected}" "\<forall>x \<in> set results. result_of_stack (vs_version s) x"
    by (auto simp: validate_payload_iff)
  have x: "vs_expected s = expected" using e(1) r(6) by (simp add: dict_get_def)
  have "vs_version s \<in> set VERSION_ORDER"
    using e(1) by (auto simp: EXPECTED_CODES_def VERSION_ORDER_def split: if_splits)
  moreover have "vs_observed s \<in> {[], vs_expected s}" using r(7) e(2) x by auto
  moreover let ?ls = "event_lengths (map iteration_key (cs_affected c))"
  have "length ?ls \<le> sum_list ?ls" by (rule length_le_sum[OF event_lengths_pos])
  moreover have "foldl max 0 ?ls \<le> sum_list ?ls" using foldl_max_bounds[of ?ls 0] by simp
  moreover have "?ls = [] \<longleftrightarrow> cs_affected c = []"
    using event_lengths_sum[of "map iteration_key (cs_affected c)"] length_le_sum[OF event_lengths_pos, of "map iteration_key (cs_affected c)"]
    by (metis le_zero_eq length_0_conv length_map sum_list.Nil)
  ultimately show ?thesis using r e x event_lengths_sum[of "map iteration_key (cs_affected c)"]
    by (auto simp: list_all_iff)
qed

definition sample_stack_fs :: fs where
  "sample_stack_fs = [([''d''], Dir),
     ([''d'', ''ghalo.json''], File (''{\"results\":[{\"backend\":\"RCCL\",\"halo_words\":8,\"iterations\":2,''
        @ ''\"metadata\":{\"rocm_version\":\"6.4.2\",\"rccl_sync_mode\":\"conservative\"}}]}'')),
     ([''d'', ''iteration-times.csv''], File (csv_write [ITERATION_COLUMNS,
        [''8'', ''1'', ''0'', ''1'', ''3'', ''RCCL'', ''conservative'', ''4'']]))]"

theorem version_summary_sound_witness:
  "\<exists>s. summarize_result sample_stack_fs (Some (Fin 100)) [''d''] = Inr s \<and> vs_version s = ''6.4.2'' \<and> vs_expected s = ''22203''"
proof -
  let ?a = "summarize_result sample_stack_fs (Some (Fin 100)) [''d'']"
  have "case ?a of Inr s \<Rightarrow> vs_version s = ''6.4.2'' | _ \<Rightarrow> False" by code_simp
  then obtain s where s: "?a = Inr s" "vs_version s = ''6.4.2''" by (auto split: sum.splits)
  then show ?thesis using version_summary_sound[OF s(1)] by (auto simp: EXPECTED_CODES_def)
qed

lemma add_versions:
  "foldR add_version d xs = Inr d' \<longleftrightarrow> distinct (map vs_version xs) \<and> set (keys_of d) \<inter> vs_version ` set xs = {}
     \<and> d' = d @ map (\<lambda>s. (vs_version s, s)) xs"
proof (induction xs arbitrary: d)
  case (Cons x xs)
  have "map_of d (vs_version x) = None \<Longrightarrow> AList.update (vs_version x) x d = d @ [(vs_version x, x)]"
    by (rule update_fresh) (simp add: map_of_eq_None_iff)
  then show ?case using Cons[of "d @ [(vs_version x, x)]"]
    by (auto simp: add_version_def bindR_eq_Inr_iff map_of_eq_None_iff)
qed auto

text \<open>C13: the comparison goes on exactly when no version occurs twice and none of the three is missing;
  it then has one summary per version, in the fixed order, each one of those found.\<close>

theorem complete_matrix_iff:
  "validate_complete_matrix xs = Inr ss \<longleftrightarrow> distinct (map vs_version xs) \<and> set VERSION_ORDER \<subseteq> vs_version ` set xs
     \<and> map vs_version ss = VERSION_ORDER \<and> set ss \<subseteq> set xs"
proof (cases "distinct (map vs_version xs)")
  case True
  let ?d = "map (\<lambda>s. (vs_version s, s)) xs"
  have look: "map_of ?d v = Some s \<longleftrightarrow> s \<in> set xs \<and> vs_version s = v" for v s
    using True by (subst map_of_eq_Some_iff) (auto simp: comp_def)
  have none: "map_of ?d v = None \<longleftrightarrow> v \<notin> vs_version ` set xs" for v by (force simp: map_of_eq_None_iff)
  have "foldR add_version [] xs = Inr ?d" using True by (simp add: add_versions)
  then have "validate_complete_matrix xs = Inr ss \<longleftrightarrow> set VERSION_ORDER \<subseteq> vs_version ` set xs
      \<and> ss = map (\<lambda>v. the (map_of ?d v)) VERSION_ORDER"
    by (auto simp: validate_complete_matrix_def Let_def none filter_empty_conv)
  moreover have "ss = map (\<lambda>v. the (map_of ?d v)) VERSION_ORDER \<longleftrightarrow> map vs_version ss = VERSION_ORDER \<and> set ss \<subseteq> set xs"
    if sub: "set VERSION_ORDER \<subseteq> vs_version ` set xs"
  proof
    have the: "the (map_of ?d v) \<in> set xs \<and> vs_version (the (map_of ?d v)) = v" if v: "v \<in> set VERSION_ORDER" for v
    proof -
      obtain s where "s \<in> set xs" "vs_version s = v" using v sub by blast
      then show ?thesis using look[of v s] by simp
    qed
    assume "ss = map (\<lambda>v. the (map_of ?d v)) VERSION_ORDER"
    then show "map vs_version ss = VERSION_ORDER \<and> set ss \<subseteq> set xs"
      using the by (auto simp: comp_def intro: map_idI)
  next
    assume a: "map vs_version ss = VERSION_ORDER \<and> set ss \<subseteq> set xs"
    then have "map_of ?d (vs_version s) = Some s" if "s \<in> set ss" for s using look that by blast
    then have "map (\<lambda>v. the (map_of ?d v)) (map vs_version ss) = ss" by (simp add: map_idI)
    then show "ss = map (\<lambda>v. the (map_of ?d v)) VERSION_ORDER" using a by simp
  qed
  ultimately show ?thesis using True by blast
next
  case False
  then have "\<not> (\<exists>d'. foldR add_version [] xs = Inr d')" by (simp add: add_versions)
  then show ?thesis using False by (auto simp: validate_complete_matrix_def bindR_eq_Inr_iff)
qed

text \<open>A repeated index, as in a file with a duplicated line, ends an event and starts another.\<close>

lemma repeated_index_splits: "event_lengths [(8, 1, 3), (8, 1, 3)] = [1, 1]"
  by code_simp

end
