(* ===== verification/Migration.thy ===== *)
theory Migration
  imports PathMeta PyPath
begin

text \<open>
  \<^verbatim>\<open>tools/migrate_results.py\<close>: flat result bundles are copied into
  \<^verbatim>\<open>results/<system>/rocm-<version>/<category>/\<close>.  The names the copy is made of,
  the search for a free destination, and the copy itself on the model's file system.
  Functions whose names another tool uses too carry the prefix \<open>migrate_\<close>.
\<close>

section \<open>Names\<close>

definition BACKENDS :: "string list" where
  "BACKENDS = [''mpi-hip'', ''rccl'', ''mpi'']"

definition CATEGORIES :: "string list" where
  "CATEGORIES = [''validation'', ''scaling'', ''repeatability'', ''phase-timing'']"

definition sanitize :: "string \<Rightarrow> string \<Rightarrow> string" where
  "sanitize value def =
     (let v = squeeze slug_char (CHR ''_'') (replace_char (CHR '' '') (CHR ''_'') (strip value));
          v = strip_chars ''_'' v
      in if v = [] then def else v)"

definition normalize_backend :: "string \<Rightarrow> string" where
  "normalize_backend value =
     (let lowered = lower value in
      if sublist ''mpi-hip'' lowered \<or> sublist ''mpihip'' lowered then ''mpi-hip''
      else if sublist ''rccl'' lowered then ''rccl'' else if sublist ''mpi'' lowered then ''mpi''
      else sanitize lowered ''unknown'')"

text \<open>\<^verbatim>\<open>s.rsplit(sep, 1)[1]\<close>: what follows the last occurrence, None without one.\<close>

fun after_last :: "string \<Rightarrow> string \<Rightarrow> string option" where
  "after_last sep [] = (if sep = [] then Some [] else None)"
| "after_last sep (c # cs) = (case after_last sep cs of
     Some t \<Rightarrow> Some t
   | None \<Rightarrow> if prefix sep (c # cs) then Some (drop (length sep) (c # cs)) else None)"

definition before_slash :: "string \<Rightarrow> string" where
  "before_slash s = takeWhile (\<lambda>c. c \<noteq> CHR ''/'') s"

definition migrate_normalize_rocm :: "string \<Rightarrow> string" where
  "migrate_normalize_rocm value =
     (let v = strip value in
      if v = [] then ''none''
      else (let v = (if prefix ''rocm/'' v then drop 5 v else v);
                v = (case after_last ''rocm-'' v of Some t \<Rightarrow> t | None \<Rightarrow> v)
            in sanitize (removeprefix ''rocm-'' (before_slash v)) ''none''))"

text \<open>The prefixes are removed until none is left; every round shortens the label.\<close>

definition has_backend_prefix :: "string \<Rightarrow> string \<Rightarrow> bool" where
  "has_backend_prefix backend label \<longleftrightarrow> prefix (backend @ ''_'') label \<or> prefix (backend @ ''-'') label"

definition drop_backend :: "string \<Rightarrow> string \<Rightarrow> string" where
  "drop_backend backend label = removeprefix (backend @ ''-'') (removeprefix (backend @ ''_'') label)"

lemma drop_backend_shorter:
  "has_backend_prefix backend label \<Longrightarrow> length (drop_backend backend label) < length label"
  using prefix_length_le[of "backend @ ''_''" label] prefix_length_le[of "backend @ ''-''" label]
    removeprefix_length[of "backend @ ''-''" "drop (length (backend @ ''_'')) label"]
  by (auto simp: has_backend_prefix_def drop_backend_def removeprefix_def)

function strip_backend :: "string \<Rightarrow> string \<Rightarrow> string" where
  "strip_backend backend label =
     (if has_backend_prefix backend label then strip_backend backend (drop_backend backend label) else label)"
  by pat_completeness auto
termination
  by (relation "measure (\<lambda>(b, l). length l)") (simp_all add: drop_backend_shorter)

declare strip_backend.simps [simp del]

definition normalize_label :: "string \<Rightarrow> string \<Rightarrow> string" where
  "normalize_label label backend =
     (let l = strip_backend backend (sanitize label ''run'') in if l = [] then ''run'' else l)"

section \<open>Reading a bundle\<close>

definition migrate_key_values :: "fs \<Rightarrow> path \<Rightarrow> (string, string) dict res" where
  "migrate_key_values fs p = (if \<not> fs_exists fs p then Inr []
     else bindR (fs_text fs p) (\<lambda>text. Inr (foldl add_metadata_line [] (splitlines text))))"

definition migrate_load_json :: "fs \<Rightarrow> path \<Rightarrow> (string \<times> json) list res" where
  "migrate_load_json fs p = (if \<not> fs_exists fs p \<or> map_of fs p = Some (File []) then Inr []
     else bindR (fs_text fs p) (\<lambda>text.
       Inr (case json_loads text of Some (JObj d) \<Rightarrow> d | _ \<Rightarrow> [])))"

text \<open>\<^verbatim>\<open>^(\d{8}T\d{6}Z)_([^_]+)_(.*)$\<close>.\<close>

definition flat_name_match :: "string \<Rightarrow> (string \<times> string \<times> string) option" where
  "flat_name_match name = (case split_once (CHR ''_'') (drop 17 name) of
     None \<Rightarrow> None
   | Some (backend, label) \<Rightarrow>
       if is_timestamp (take 16 name) \<and> 16 < length name \<and> name ! 16 = CHR ''_''
          \<and> backend \<noteq> [] \<and> LF \<notin> set (before_end label)
       then Some (take 16 name, backend, before_end label) else None)"

definition split_flat_name :: "string \<Rightarrow> string \<times> string \<times> string" where
  "split_flat_name name = (case flat_name_match name of
     None \<Rightarrow> (''unknown'', ''unknown'', name)
   | Some (ts, backend, label) \<Rightarrow> (ts, normalize_backend backend, label))"

definition infer_system :: "path \<Rightarrow> (string, string) dict \<Rightarrow> string" where
  "infer_system bundle md =
     (if or_str (map_of md ''active_system'') [] \<noteq> [] then sanitize (or_str (map_of md ''active_system'') []) ''unknown''
      else (case index_of ''results'' bundle of
        Some i \<Rightarrow> if i + 1 < length bundle then sanitize (bundle ! (i + 1)) ''unknown''
                  else sanitize (path_name (path_parent bundle)) ''unknown''
      | None \<Rightarrow> sanitize (path_name (path_parent bundle)) ''unknown''))"

definition infer_category :: "string \<Rightarrow> (string \<times> json) list \<Rightarrow> string" where
  "infer_category label result =
     (if json_bool (jget result ''phase_timing'' JNull) then ''phase-timing''
      else if (case jget result ''metadata'' (JObj []) of
            JObj md \<Rightarrow> jget md ''validation_enabled'' JNull = JBool True | _ \<Rightarrow> False) then ''validation''
      else (let lowered = lower label in
        if sublist ''phase'' lowered then ''phase-timing''
        else if sublist ''valid'' lowered \<or> sublist ''smoke'' lowered then ''validation''
        else if sublist ''scaling'' lowered \<or> prefix ''scale-'' lowered \<or> prefix ''scale_'' lowered then ''scaling''
        else ''repeatability''))"

record bundle_info =
  b_system :: string
  b_rocm :: string
  b_category :: string
  b_backend :: string
  b_label :: string

text \<open>\<^verbatim>\<open>a or b or c or ...\<close> over values.\<close>

definition first_truthy :: "json list \<Rightarrow> json" where
  "first_truthy vs = (case find json_bool vs of Some v \<Rightarrow> v | None \<Rightarrow> last vs)"

definition infer_bundle :: "fs \<Rightarrow> path \<Rightarrow> bundle_info res" where
  "infer_bundle fs bundle =
     (let (ts, flat_backend, flat_label) = split_flat_name (path_name bundle) in
      bindR (migrate_key_values fs (child bundle ''system-resolution.txt'')) (\<lambda>sysmd.
      bindR (migrate_key_values fs (child bundle ''result-metadata.txt'')) (\<lambda>md.
      bindR (migrate_load_json fs (child bundle ''ghalo.json'')) (\<lambda>data.
      let results = (case jget data ''results'' JNull of JList xs \<Rightarrow> xs | _ \<Rightarrow> []);
          first = (case results of JObj d # _ \<Rightarrow> d | _ \<Rightarrow> []);
          first_metadata = (case jget first ''metadata'' JNull of JObj d \<Rightarrow> d | _ \<Rightarrow> []);
          backend = normalize_backend (json_str (first_truthy [jget first ''backend'' JNull,
             opt_str (map_of sysmd ''backend''), JStr flat_backend]));
          rocm = migrate_normalize_rocm (json_str (first_truthy [jget first_metadata ''rocm_version'' JNull,
             opt_str (map_of md ''rocm_version''), opt_str (map_of md ''loaded_rocm_module''), JStr ''none'']));
          category = or_str (map_of md ''result_category'') (infer_category flat_label first)
      in Inr \<lparr>b_system = infer_system bundle sysmd, b_rocm = rocm,
              b_category = (if category \<in> set CATEGORIES then category else ''repeatability''),
              b_backend = backend, b_label = normalize_label flat_label backend\<rparr>))))"

section \<open>Destinations\<close>

definition numbered_name :: "string \<Rightarrow> nat \<Rightarrow> string" where
  "numbered_name stem k = stem @ ''_'' @ string_of_int (int k)"

lemma split_on_append:
  "sep \<notin> set x \<Longrightarrow> split_on sep (s @ x) = butlast (split_on sep s) @ [last (split_on sep s) @ x]"
proof (induction s)
  case Nil
  then show ?case by (induction x) auto
next
  case (Cons c s)
  obtain p ps where p: "split_on sep s = p # ps" by (metis list.exhaust split_on_not_Nil)
  show ?case using Cons p by (cases ps) auto
qed

lemma last_child_numbered:
  "last (child p (numbered_name stem k)) = last (split_on (CHR ''/'') stem) @ ''_'' @ string_of_int (int k)"
proof -
  let ?x = "''_'' @ digits_of (int k)"
  have "CHR ''/'' \<notin> set ?x" using digits_of_no_slash[of "int k"] by simp
  then have s: "split_on (CHR ''/'') (stem @ ?x)
      = butlast (split_on (CHR ''/'') stem) @ [last (split_on (CHR ''/'') stem) @ ?x]"
    by (rule split_on_append)
  have "last (split_on (CHR ''/'') stem) @ ?x \<noteq> ''.''"
    using digits_of_not_Nil[of "int k"] by (cases "last (split_on (CHR ''/'') stem)") auto
  then have "last (Path (stem @ ?x)) = last (split_on (CHR ''/'') stem) @ ?x
      \<and> Path (stem @ ?x) \<noteq> []"
    unfolding Path_def s by simp
  then show ?thesis by (auto simp: child_def numbered_name_def string_of_int_def)
qed

lemma child_numbered_inj:
  "child p (numbered_name stem j) = child p (numbered_name stem k) \<Longrightarrow> j = k"
proof -
  assume "child p (numbered_name stem j) = child p (numbered_name stem k)"
  then have "string_of_int (int j) = string_of_int (int k)"
    using last_child_numbered[of p stem j] last_child_numbered[of p stem k] by simp
  then show "j = k" by (simp only: string_of_int_inj of_nat_eq_iff)
qed

lemma finite_taken: "finite {j. k \<le> j \<and> fs_exists fs (child p (numbered_name stem j))}"
proof (rule finite_imageD)
  show "finite ((\<lambda>j. child p (numbered_name stem j)) ` {j. k \<le> j \<and> fs_exists fs (child p (numbered_name stem j))})"
    by (rule finite_subset[of _ "set (map fst fs)"]) (auto simp: fs_exists_iff)
qed (auto intro: inj_onI dest: child_numbered_inj)

text \<open>The loop over suffixes ends: the files that exist are finitely many.\<close>

function first_free :: "fs \<Rightarrow> path \<Rightarrow> string \<Rightarrow> nat \<Rightarrow> path" where
  "first_free fs parent stem num =
     (let candidate = child parent (numbered_name stem num)
      in if fs_exists fs candidate then first_free fs parent stem (Suc num) else candidate)"
  by pat_completeness auto
termination
proof (relation "measure (\<lambda>(fs, p, s, k). card {j. k \<le> j \<and> fs_exists fs (child p (numbered_name s j))})", goal_cases)
  case (2 fs p s k c)
  have "{j. Suc k \<le> j \<and> fs_exists fs (child p (numbered_name s j))}
        \<subset> {j. k \<le> j \<and> fs_exists fs (child p (numbered_name s j))}"
    using 2 by (auto simp: Suc_le_eq intro: order.strict_implies_order)
  then show ?case using psubset_card_mono[OF finite_taken[of k fs p s]] by simp
qed simp

declare first_free.simps [simp del]

definition destination_parent :: "path \<Rightarrow> string \<Rightarrow> string \<Rightarrow> string \<Rightarrow> path" where
  "destination_parent base_dir sys rocm category =
     child (child (child (child base_dir ''results'') sys) (''rocm-'' @ rocm)) category"

definition destination_stem :: "path \<Rightarrow> string \<Rightarrow> string \<Rightarrow> string" where
  "destination_stem source backend label = (let (ts, _, _) = split_flat_name (path_name source) in
     if ts \<noteq> ''unknown'' then ts @ ''_'' @ backend @ ''_'' @ label else backend @ ''_'' @ label)"

definition unique_destination :: "fs \<Rightarrow> path \<Rightarrow> bundle_info \<Rightarrow> path \<Rightarrow> path" where
  "unique_destination fs base_dir b source =
     (let parent = destination_parent base_dir (b_system b) (b_rocm b) (b_category b);
          stem = destination_stem source (b_backend b) (b_label b);
          candidate = child parent stem
      in if fs_exists fs candidate then first_free fs parent stem 2 else candidate)"

section \<open>The migration\<close>

definition is_bundle :: "fs \<Rightarrow> path \<Rightarrow> bool" where
  "is_bundle fs p \<longleftrightarrow> fs_is_dir fs p \<and> (fs_exists fs (child p ''ghalo.json'') \<or> fs_exists fs (child p ''ghalo.csv''))"

definition timestamped :: "string \<Rightarrow> bool" where
  "timestamped name \<longleftrightarrow> is_timestamp (take 16 name) \<and> 16 < length name \<and> name ! 16 = CHR ''_''"

text \<open>\<^verbatim>\<open>shutil.copytree\<close>: a copy of the source's entries as they are when it starts.
  A destination inside the source is copied into itself until the system refuses.\<close>

definition copytree :: "fs \<Rightarrow> path \<Rightarrow> path \<Rightarrow> fs res" where
  "copytree fs source dest =
     (if fs_exists fs dest \<or> prefix source dest then Inl OSError
      else Inr (foldl (\<lambda>fs' (p, n). AList.update (dest @ drop (length source) p) n fs') fs
                 (filter (\<lambda>(p, n). prefix source p) fs)))"

definition migrate_line :: "bool \<Rightarrow> path \<Rightarrow> path \<Rightarrow> bundle_info \<Rightarrow> string" where
  "migrate_line really bundle dest b =
     (if really then ''COPY'' else ''DRY-RUN'') @ '' '' @ str_path bundle @ '' -> '' @ str_path dest
     @ '' (system='' @ b_system b @ '' rocm='' @ b_rocm b @ '' category='' @ b_category b
     @ '' backend='' @ b_backend b @ '' label='' @ b_label b @ '')'' @ [LF]"

definition migrate_bundle :: "bool \<Rightarrow> path \<Rightarrow> io \<Rightarrow> path \<Rightarrow> io res" where
  "migrate_bundle really base_dir s bundle =
     bindR (infer_bundle (io_files s) bundle) (\<lambda>b.
     let dest = unique_destination (io_files s) base_dir b bundle;
         s' = s\<lparr>io_out := io_out s @ migrate_line really bundle dest b\<rparr>
     in if really
        then bindR (fs_mkdirs (io_files s') (path_parent dest)) (\<lambda>fs.
             bindR (copytree fs bundle dest) (\<lambda>fs'. Inr (s'\<lparr>io_files := fs'\<rparr>)))
        else Inr s')"

text \<open>The candidates are found while the copies are made: a directory's children are listed
  when the loop reaches it, and each is looked at when its turn comes.\<close>

definition migrate_child :: "bool \<Rightarrow> path \<Rightarrow> io \<Rightarrow> path \<Rightarrow> io res" where
  "migrate_child really base_dir s p =
     (if timestamped (path_name p) \<and> is_bundle (io_files s) p then migrate_bundle really base_dir s p else Inr s)"

definition migrate_path :: "bool \<Rightarrow> path \<Rightarrow> io \<Rightarrow> path \<Rightarrow> io res" where
  "migrate_path really base_dir s p =
     (if is_bundle (io_files s) p then migrate_bundle really base_dir s p
      else if fs_is_dir (io_files s) p
        then foldR (migrate_child really base_dir) s (sort (fs_iterdir (io_files s) p))
      else Inr s)"

definition migrate_main :: "bool \<Rightarrow> bool \<Rightarrow> path \<Rightarrow> path list \<Rightarrow> io \<Rightarrow> io res" where
  "migrate_main apply_flag dry_run base_dir paths s =
     foldR (migrate_path (apply_flag \<and> \<not> dry_run) base_dir) s paths"

section \<open>Safe names\<close>

definition safe_name :: "string \<Rightarrow> bool" where
  "safe_name s \<longleftrightarrow> s \<noteq> [] \<and> list_all slug_char s"

abbreviation (input) underscore :: "char \<Rightarrow> bool" where "underscore \<equiv> (\<lambda>c. c \<in> set ''_'')"

lemma bare_strip_chars: "bare (\<lambda>c. c \<in> set cs) (strip_chars cs s)"
  by (simp add: strip_chars_def strip_where_bare)

lemma slug_squeeze: "slug_char ch \<Longrightarrow> list_all slug_char (strip_chars cs (squeeze slug_char ch s))"
  using set_strip_where squeeze_ok by (fastforce simp: strip_chars_def list_all_iff)

lemma sanitize_named:
  assumes "safe_name def" "bare underscore def"
  shows "sanitize s def \<noteq> [] \<and> list_all slug_char (sanitize s def) \<and> bare underscore (sanitize s def)"
  using assms slug_squeeze[of "CHR ''_''"] bare_strip_chars
  by (simp add: sanitize_def Let_def safe_name_def slug_char_def del: list.set)

lemma sanitize_kept:
  assumes "s \<noteq> []" "list_all slug_char s" "bare underscore s"
  shows "sanitize s def = s"
proof -
  have "replace_char (CHR '' '') (CHR ''_'') s = s"
    using assms(2) slug_char_no_space[of "CHR '' ''"]
    by (auto simp: replace_char_def list_all_iff is_space_def code_def intro!: map_idI)
  moreover have "squeeze slug_char (CHR ''_'') s = s" using assms(2) by (intro squeeze_id) (auto simp: list_all_iff)
  moreover have "strip_chars ''_'' s = s" unfolding strip_chars_def by (rule strip_where_id[OF assms(3)])
  ultimately show ?thesis using assms(1) strip_slug[OF assms(2)] by (simp add: sanitize_def)
qed

lemma sanitize_namer:
  "safe_name def \<Longrightarrow> bare underscore def \<Longrightarrow> file_namer (\<lambda>s. sanitize s def) slug_char underscore"
  using sanitize_named sanitize_kept by unfold_locales

text \<open>The three defaults the tool uses.\<close>

lemma safe_defaults: "safe_name ''run''" "safe_name ''unknown''" "safe_name ''none''"
  by code_simp+

lemma bare_defaults: "bare underscore ''run''" "bare underscore ''unknown''" "bare underscore ''none''"
  by (simp_all add: bare_def)

interpretation run_namer: file_namer "\<lambda>s. sanitize s ''run''" slug_char underscore
  by (rule sanitize_namer) (rule safe_defaults bare_defaults)+

interpretation unknown_namer: file_namer "\<lambda>s. sanitize s ''unknown''" slug_char underscore
  by (rule sanitize_namer) (rule safe_defaults bare_defaults)+

interpretation none_namer: file_namer "\<lambda>s. sanitize s ''none''" slug_char underscore
  by (rule sanitize_namer) (rule safe_defaults bare_defaults)+

text \<open>Names of dots only pass: a system called \<^verbatim>\<open>..\<close> leads out of the results directory.\<close>

lemma sanitize_keeps_dots: "sanitize ''..'' def = ''..''"
  by (rule sanitize_kept) (simp_all add: slug_char_def bare_def)

lemma safe_normalize_backend: "safe_name (normalize_backend s)"
proof -
  have "safe_name ''mpi-hip''" "safe_name ''rccl''" "safe_name ''mpi''" by code_simp+
  then show ?thesis using unknown_namer.named by (simp add: normalize_backend_def Let_def safe_name_def)
qed

lemma safe_normalize_rocm: "safe_name (migrate_normalize_rocm s)"
proof -
  show ?thesis using safe_defaults none_namer.named by (simp add: migrate_normalize_rocm_def Let_def safe_name_def)
qed

lemma strip_backend_set: "set (strip_backend b l) \<subseteq> set l"
proof (induction b l rule: strip_backend.induct)
  case (1 b l)
  then show ?case
    using set_removeprefix by (subst strip_backend.simps) (auto simp: drop_backend_def dest!: subsetD)
qed

lemma strip_backend_done: "\<not> has_backend_prefix b (strip_backend b l)"
  by (induction b l rule: strip_backend.induct) (subst strip_backend.simps, simp)

lemma safe_normalized_label:
  "safe_name (normalize_label label backend) \<and> \<not> has_backend_prefix backend (normalize_label label backend)"
proof -
  note safe_defaults(1)
  moreover have "\<not> has_backend_prefix backend ''run''"
    by (auto simp: has_backend_prefix_def prefix_def Cons_eq_append_conv append_eq_Cons_conv)
  moreover have "list_all slug_char (strip_backend backend (sanitize label ''run''))"
    using run_namer.named[of label] strip_backend_set by (fastforce simp: list_all_iff)
  ultimately show ?thesis using strip_backend_done
    by (simp add: normalize_label_def Let_def safe_name_def)
qed

lemma strip_backend_parts:
  "\<exists>seps. set seps \<subseteq> set ''_-'' \<and> label = concat (map (\<lambda>c. backend @ [c]) seps) @ strip_backend backend label"
proof (induction backend label rule: strip_backend.induct)
  case (1 backend label)
  show ?case
  proof (cases "has_backend_prefix backend label")
    case False
    then show ?thesis by (subst strip_backend.simps) (auto intro: exI[of _ "[]"])
  next
    case True
    then obtain seps where s: "set seps \<subseteq> set ''_-''"
      "drop_backend backend label = concat (map (\<lambda>c. backend @ [c]) seps) @ strip_backend backend (drop_backend backend label)"
      using 1 by blast
    have "\<exists>cs. set cs \<subseteq> set ''_-'' \<and> label = concat (map (\<lambda>c. backend @ [c]) cs) @ drop_backend backend label"
    proof (cases "prefix (backend @ ''_'') label")
      case True
      then obtain r where r: "label = backend @ ''_'' @ r" by (auto simp: prefix_def)
      show ?thesis
      proof (cases "prefix (backend @ ''-'') r")
        case True
        then show ?thesis by (intro exI[of _ "''_-''"]) (auto simp: drop_backend_def removeprefix_def r prefix_def)
      next
        case False
        then show ?thesis by (intro exI[of _ "''_''"]) (auto simp: drop_backend_def removeprefix_def r)
      qed
    next
      case False
      then obtain r where "label = backend @ ''-'' @ r" using True by (auto simp: has_backend_prefix_def prefix_def)
      then show ?thesis using False by (intro exI[of _ "''-''"]) (auto simp: drop_backend_def removeprefix_def)
    qed
    then obtain cs where "set cs \<subseteq> set ''_-''" "label = concat (map (\<lambda>c. backend @ [c]) cs) @ drop_backend backend label"
      by blast
    then have "set (cs @ seps) \<subseteq> set ''_-'' \<and> label = concat (map (\<lambda>c. backend @ [c]) (cs @ seps)) @ strip_backend backend label"
      using s True strip_backend.simps[of backend label] by (metis (no_types, lifting) Un_subset_iff append.assoc concat_append map_append set_append)
    then show ?thesis by blast
  qed
qed

text \<open>C32: the label of a copy is the sanitized label without the leading repetitions of the backend,
  each followed by an underscore or a dash, and nothing else is removed; it is a safe name and does
  not start with the backend and a separator any more.\<close>

theorem normalized_label:
  "safe_name (normalize_label label backend) \<and> \<not> has_backend_prefix backend (normalize_label label backend)
   \<and> (\<exists>seps rest. set seps \<subseteq> set ''_-'' \<and> sanitize label ''run'' = concat (map (\<lambda>c. backend @ [c]) seps) @ rest
        \<and> normalize_label label backend = (if rest = [] then ''run'' else rest))"
proof -
  obtain seps where "set seps \<subseteq> set ''_-''"
    "sanitize label ''run'' = concat (map (\<lambda>c. backend @ [c]) seps) @ strip_backend backend (sanitize label ''run'')"
    using strip_backend_parts by blast
  then show ?thesis using safe_normalized_label unfolding normalize_label_def Let_def by blast
qed

text \<open>A label that is the bare name of the backend, without a separator, stays: the name of the copy
  then repeats the backend.\<close>

lemma bare_backend_repeated:
  "normalize_label ''mpi'' ''mpi'' = ''mpi''"
  "destination_stem [''20250101T000000Z_mpi_mpi''] ''mpi'' (normalize_label ''mpi'' ''mpi'') = ''20250101T000000Z_mpi_mpi''"
  by code_simp+

lemma safe_infer_system: "safe_name (infer_system bundle md)"
  using unknown_namer.named by (simp add: infer_system_def safe_name_def split: option.splits)

lemma safe_infer_bundle:
  assumes "infer_bundle fs bundle = Inr b"
  shows "safe_name (b_system b) \<and> safe_name (b_rocm b) \<and> safe_name (b_backend b) \<and> safe_name (b_label b)
    \<and> b_category b \<in> set CATEGORIES"
proof -
  have "''repeatability'' \<in> set CATEGORIES" by (simp add: CATEGORIES_def)
  then show ?thesis using assms safe_infer_system safe_normalize_rocm safe_normalize_backend
    by (auto simp: infer_bundle_def bindR_eq_Inr_iff Let_def safe_normalized_label split: prod.splits)
qed

section \<open>Where a copy goes\<close>

lemma timestamp_chars:
  assumes "is_timestamp ts"
  shows "list_all slug_char ts"
proof -
  have l: "length ts = 16" and d: "list_all is_decimal (take 8 ts)" "list_all is_decimal (take 6 (drop 9 ts))"
    and c: "ts ! 8 = CHR ''T''" "ts ! 15 = CHR ''Z''"
    using assms by (auto simp: is_timestamp_def)
  have dec: "is_decimal x \<Longrightarrow> slug_char x" for x by (simp add: slug_char_def is_ascii_alnum_def)
  have "slug_char (ts ! i)" if i: "i < 16" for i
  proof -
    consider "i < 8" | "i = 8" | "9 \<le> i" "i < 15" | "i = 15" using i by linarith
    then show ?thesis
    proof cases
      case 1
      then have "take 8 ts ! i \<in> set (take 8 ts)" using l by (intro nth_mem) simp
      then show ?thesis using d(1) dec 1 by (auto simp: list_all_iff)
    next
      case 3
      then have "take 6 (drop 9 ts) ! (i - 9) \<in> set (take 6 (drop 9 ts))" using l by (intro nth_mem) simp
      then show ?thesis using d(2) dec 3 l by (auto simp: list_all_iff)
    qed (use c in \<open>auto simp: slug_char_def is_ascii_alnum_def is_upper_ascii_def code_def\<close>)
  qed
  then show ?thesis using l by (simp add: list_all_length)
qed

lemma split_flat_name_timestamp:
  "split_flat_name name = (ts, b, l) \<Longrightarrow> ts = ''unknown'' \<or> is_timestamp ts"
  by (auto simp: split_flat_name_def flat_name_match_def split: option.splits prod.splits if_splits)

definition bundle_ok :: "bundle_info \<Rightarrow> bool" where
  "bundle_ok b \<longleftrightarrow> safe_name (b_system b) \<and> safe_name (b_rocm b) \<and> safe_name (b_backend b) \<and> safe_name (b_label b)
     \<and> b_category b \<in> set CATEGORIES"

lemma slug_no_slash: "list_all slug_char s \<Longrightarrow> CHR ''/'' \<notin> set s"
  using slug_char_no_slash by (auto simp: list_all_iff)

lemma child_slug: "list_all slug_char s \<Longrightarrow> s \<noteq> [] \<Longrightarrow> child p s = (if s = ''.'' then p else p @ [s])"
  using child_plain[of s p] slug_no_slash[of s]
  by (auto simp: plain_part_def child_def Path_def root_parts_def split_on_bare)

text \<open>The directory of the copies of a system, a version and a category.\<close>

definition layout_parent :: "path \<Rightarrow> bundle_info \<Rightarrow> path" where
  "layout_parent base b = base @ [''results''] @ (if b_system b = ''.'' then [] else [b_system b])
     @ [''rocm-'' @ b_rocm b, b_category b]"

lemma destination_parent_layout:
  assumes "bundle_ok b"
  shows "destination_parent base (b_system b) (b_rocm b) (b_category b) = layout_parent base b"
proof -
  have s: "b_system b \<noteq> []" "list_all slug_char (b_system b)" "CHR ''/'' \<notin> set (b_rocm b)"
    using assms slug_no_slash by (auto simp: bundle_ok_def safe_name_def)
  have c: "plain_part (b_category b)" using assms by (auto simp: bundle_ok_def CATEGORIES_def plain_part_def)
  have r: "plain_part (''rocm-'' @ b_rocm b)" "plain_part ''results''" using s(3) by (simp_all add: plain_part_def)
  show ?thesis using c r child_slug[OF s(2,1)]
    by (simp add: destination_parent_def layout_parent_def child_plain del: append_Cons)
qed

lemma destination_stem_plain:
  assumes "bundle_ok b" "CHR ''/'' \<notin> set x"
  shows "plain_part (destination_stem source (b_backend b) (b_label b) @ x)"
proof -
  obtain ts fb fl where s: "split_flat_name (path_name source) = (ts, fb, fl)" by (metis prod.exhaust)
  have b: "CHR ''/'' \<notin> set (b_backend b)" "CHR ''/'' \<notin> set (b_label b)" "b_backend b \<noteq> []" "b_label b \<noteq> []"
    using assms(1) slug_no_slash by (auto simp: bundle_ok_def safe_name_def)
  have "ts \<noteq> ''unknown'' \<Longrightarrow> CHR ''/'' \<notin> set ts"
    using split_flat_name_timestamp[OF s] timestamp_chars slug_no_slash by blast
  then show ?thesis using b assms(2)
    by (cases "b_backend b"; cases ts) (auto simp: destination_stem_def s plain_part_def)
qed

lemma child_numbered:
  assumes "bundle_ok b"
  shows "child p (numbered_name (destination_stem source (b_backend b) (b_label b)) k)
    = p @ [numbered_name (destination_stem source (b_backend b) (b_label b)) k]"
  using destination_stem_plain[OF assms, of "''_'' @ string_of_int (int k)"] digits_of_no_slash[of "int k"]
  by (intro child_plain) (simp add: numbered_name_def string_of_int_def)

lemma first_free_spec:
  "\<exists>k \<ge> num. first_free fs p stem num = child p (numbered_name stem k)
     \<and> \<not> fs_exists fs (child p (numbered_name stem k))
     \<and> list_all (\<lambda>j. fs_exists fs (child p (numbered_name stem j))) [num..<k]"
proof (induction fs p stem num rule: first_free.induct)
  case (1 fs p stem num)
  show ?case
  proof (cases "fs_exists fs (child p (numbered_name stem num))")
    case True
    then obtain k where k: "Suc num \<le> k" "first_free fs p stem (Suc num) = child p (numbered_name stem k)"
      "\<not> fs_exists fs (child p (numbered_name stem k))"
      "list_all (\<lambda>j. fs_exists fs (child p (numbered_name stem j))) [Suc num..<k]"
      using 1[OF refl True] by blast
    have "[num..<k] = num # [Suc num..<k]" using k(1) by (simp add: upt_conv_Cons)
    then show ?thesis using k True by (subst first_free.simps) (auto simp: Let_def intro!: exI[of _ k])
  next
    case False
    then show ?thesis by (subst first_free.simps) (auto simp: Let_def intro!: exI[of _ num])
  qed
qed

lemma unique_destination_cases:
  "unique_destination fs base b source = child (destination_parent base (b_system b) (b_rocm b) (b_category b))
       (destination_stem source (b_backend b) (b_label b))
     \<and> \<not> fs_exists fs (unique_destination fs base b source)
   \<or> (\<exists>k \<ge> 2. unique_destination fs base b source = child (destination_parent base (b_system b) (b_rocm b) (b_category b))
         (numbered_name (destination_stem source (b_backend b) (b_label b)) k)
     \<and> \<not> fs_exists fs (unique_destination fs base b source)
     \<and> list_all (\<lambda>j. fs_exists fs (child (destination_parent base (b_system b) (b_rocm b) (b_category b))
          (numbered_name (destination_stem source (b_backend b) (b_label b)) j))) [2..<k])"
  using first_free_spec[of 2 fs "destination_parent base (b_system b) (b_rocm b) (b_category b)"
      "destination_stem source (b_backend b) (b_label b)"]
  by (auto simp: unique_destination_def Let_def)

lemma unique_destination_layout:
  assumes "bundle_ok b"
  obtains name where "unique_destination fs base b source = layout_parent base b @ [name]"
    "\<not> fs_exists fs (layout_parent base b @ [name])"
    "name = destination_stem source (b_backend b) (b_label b)
     \<or> (\<exists>k. name = numbered_name (destination_stem source (b_backend b) (b_label b)) k)"
proof -
  have plain: "child p (destination_stem source (b_backend b) (b_label b))
      = p @ [destination_stem source (b_backend b) (b_label b)]" for p
    using destination_stem_plain[OF assms, of "[]"] by (simp add: child_plain)
  from unique_destination_cases[of fs base b source] show thesis
    unfolding destination_parent_layout[OF assms] plain child_numbered[OF assms]
    using that by (metis (no_types, lifting))
qed

text \<open>C31: the search for a free destination ends with one: nothing exists there, and it is the plain
  name, or the plain name is taken and so is every smaller suffix.\<close>

theorem destination_is_free:
  "\<not> fs_exists fs (unique_destination fs base b source)
   \<and> (let parent = destination_parent base (b_system b) (b_rocm b) (b_category b);
           stem = destination_stem source (b_backend b) (b_label b)
      in if fs_exists fs (child parent stem)
         then \<exists>k \<ge> 2. unique_destination fs base b source = child parent (numbered_name stem k)
                \<and> list_all (\<lambda>j. fs_exists fs (child parent (numbered_name stem j))) [2..<k]
         else unique_destination fs base b source = child parent stem)"
  using first_free_spec[of 2 fs "destination_parent base (b_system b) (b_rocm b) (b_category b)"
      "destination_stem source (b_backend b) (b_label b)"]
  by (auto simp: unique_destination_def Let_def)

section \<open>Trees of files\<close>

text \<open>A file system in which every entry lies in directories and is listed once.\<close>

definition tree_fs :: "fs \<Rightarrow> bool" where
  "tree_fs fs \<longleftrightarrow> distinct (map fst fs) \<and> (\<forall>p q. fs_exists fs p \<and> strict_prefix q p \<longrightarrow> fs_has_dir fs q)"

lemma tree_fs_below:
  assumes "tree_fs fs" "\<not> fs_exists fs p" "2 \<le> length p"
  shows "map_of fs (p @ q) = None"
proof (cases "q = []")
  case False
  have "\<not> fs_has_dir fs p" using assms(2,3) by (auto simp: fs_has_dir_def fs_is_dir_def fs_exists_def)
  moreover have "strict_prefix p (p @ q)" using False by (simp add: strict_prefix_def)
  ultimately have "\<not> fs_exists fs (p @ q)" using assms(1) unfolding tree_fs_def by blast
  then show ?thesis by (simp add: fs_exists_def)
qed (use assms(2) in \<open>simp add: fs_exists_def\<close>)

lemma has_dir_mono:
  "(\<And>q. map_of fs q = Some Dir \<Longrightarrow> map_of fs' q = Some Dir) \<Longrightarrow> fs_has_dir fs p \<Longrightarrow> fs_has_dir fs' p"
  by (auto simp: fs_has_dir_def fs_is_dir_def)

lemma make_dir_has_dir: "make_dir fs p = Inr fs' \<Longrightarrow> fs_has_dir fs' p"
  by (auto simp: make_dir_def fs_has_dir_def fs_is_dir_def map_of_AList split: if_splits)

lemma make_dirs_have_dir: "foldR make_dir fs ps = Inr fs' \<Longrightarrow> p \<in> set ps \<Longrightarrow> fs_has_dir fs' p"
proof (induction ps arbitrary: fs)
  case (Cons x ps)
  then obtain fs1 where f: "make_dir fs x = Inr fs1" "foldR make_dir fs1 ps = Inr fs'" by (auto simp: bindR_eq_Inr_iff)
  show ?case
  proof (cases "p = x")
    case True
    then show ?thesis using has_dir_mono[OF make_dirs_keep[OF f(2)] make_dir_has_dir[OF f(1)]] by simp
  next
    case False
    then show ?thesis using Cons.IH[OF f(2)] Cons.prems(2) by simp
  qed
qed simp

lemma make_dirs_distinct: "foldR make_dir fs ps = Inr fs' \<Longrightarrow> distinct (map fst fs) \<Longrightarrow> distinct (map fst fs')"
proof (induction ps arbitrary: fs)
  case (Cons x ps)
  then show ?case by (auto simp: bindR_eq_Inr_iff make_dir_def distinct_update split: if_splits)
qed simp

lemma mkdirs_effect:
  assumes "fs_mkdirs fs p = Inr fs'" "tree_fs fs"
  shows "tree_fs fs' \<and> (\<forall>q. prefix q p \<longrightarrow> fs_has_dir fs' q)
    \<and> (\<forall>q. map_of fs' q = map_of fs q \<or> map_of fs q = None \<and> map_of fs' q = Some Dir \<and> prefix q p)"
proof -
  note f = assms(1)[unfolded fs_mkdirs_def]
  have keep: "map_of fs q = Some n \<Longrightarrow> map_of fs' q = Some n" for q n by (rule make_dirs_keep[OF f])
  have dirs: "fs_has_dir fs' q" if "prefix q p" for q
    using make_dirs_have_dir[OF f] set_takes[of q p] that by (cases "q = []") (auto simp: fs_has_dir_def)
  note eff = mkdirs_entries[OF assms(1)]
  have "fs_has_dir fs' q" if x: "fs_exists fs' x" "strict_prefix q x" for q x
  proof (cases "fs_exists fs x")
    case True
    then have "fs_has_dir fs q" using assms(2) x(2) by (auto simp: tree_fs_def)
    then show ?thesis using has_dir_mono keep by blast
  next
    case False
    then have "prefix x p" using eff[of x] x(1) by (auto simp: fs_exists_def)
    then have "prefix q p" using x(2) prefix_order.less_imp_le prefix_order.trans by blast
    then show ?thesis by (rule dirs)
  qed
  then have "tree_fs fs'" using make_dirs_distinct[OF f] assms(2) unfolding tree_fs_def by blast
  then show ?thesis using dirs eff by blast
qed

lemma foldl_update_lookup:
  "map_of (foldl (\<lambda>f (p, n). AList.update (g p) n f) fs es) = map_of fs ++ map_of (rev (map (\<lambda>(p, n). (g p, n)) es))"
  by (induction es arbitrary: fs) (auto simp: update_conv' map_add_def fun_eq_iff split: option.splits)

lemma foldl_update_distinct:
  "distinct (map fst fs) \<Longrightarrow> distinct (map fst (foldl (\<lambda>f (p, n). AList.update (g p) n f) fs es))"
  by (induction es arbitrary: fs) (auto simp: distinct_update)

lemma map_of_filter_prefix:
  "map_of (filter (\<lambda>(p, n). prefix source p) fs) p = (if prefix source p then map_of fs p else None)"
  by (induction fs) auto

lemma map_of_rev_keys: "distinct (map fst xs) \<Longrightarrow> map_of (rev xs) = map_of xs"
proof (induction xs)
  case (Cons x xs)
  then have "map_of xs (fst x) = None" by (simp add: map_of_eq_None_iff)
  then show ?case using Cons by (auto simp: map_add_def fun_eq_iff split: option.splits)
qed simp

lemma copies_lookup:
  assumes "distinct (map fst es)" "\<forall>(p, n) \<in> set es. prefix source p"
  shows "map_of (rev (map (\<lambda>(p, n). (dest @ drop (length source) p, n)) es)) x
    = (if prefix dest x then map_of es (source @ drop (length dest) x) else None)"
proof -
  let ?ys = "map (\<lambda>(p, n). (dest @ drop (length source) p, n)) es"
  have "\<forall>p \<in> fst ` set es. \<exists>q. p = source @ q" using assms(2) by (fastforce simp: prefix_def)
  then have "inj_on (\<lambda>p. dest @ drop (length source) p) (fst ` set es)"
    unfolding inj_on_def by (metis append_eq_conv_conj same_append_eq)
  moreover have "map fst ?ys = map (\<lambda>p. dest @ drop (length source) p) (map fst es)"
    by (simp add: comp_def split_beta)
  ultimately have "distinct (map fst ?ys)" using assms(1) by (metis (lifting) distinct_map set_map)
  then have "map_of (rev ?ys) = map_of ?ys" by (rule map_of_rev_keys)
  moreover have "map_of ?ys x = (if prefix dest x then map_of es (source @ drop (length dest) x) else None)"
    using assms(2)
  proof (induction es)
    case (Cons e es)
    obtain q n where e: "e = (source @ q, n)" using Cons.prems by (cases e) (auto simp: prefix_def)
    have "dest @ q = x \<longleftrightarrow> prefix dest x \<and> source @ q = source @ drop (length dest) x" by (auto simp: prefix_def)
    then show ?case using Cons by (auto simp: e)
  qed simp
  ultimately show ?thesis by simp
qed

lemma copytree_effect:
  assumes "copytree fs source dest = Inr fs'" "tree_fs fs" "fs_is_dir fs source" "fs_has_dir fs (butlast dest)"
    "2 \<le> length dest"
  shows "tree_fs fs' \<and> (\<forall>q. map_of fs' (dest @ q) = map_of fs (source @ q) \<and> map_of fs (dest @ q) = None)
    \<and> (\<forall>x. \<not> prefix dest x \<longrightarrow> map_of fs' x = map_of fs x)"
proof -
  let ?es = "filter (\<lambda>(p, n). prefix source p) fs"
  have nd: "\<not> fs_exists fs dest" "\<not> prefix source dest"
    and f: "fs' = foldl (\<lambda>fs' (p, n). AList.update (dest @ drop (length source) p) n fs') fs ?es"
    using assms(1) by (auto simp: copytree_def split: if_splits)
  have "distinct (map fst ?es)" using assms(2) by (simp add: tree_fs_def distinct_map_filter)
  then have look: "map_of fs' x = (case (if prefix dest x then map_of fs (source @ drop (length dest) x) else None) of
      None \<Rightarrow> map_of fs x | Some n \<Rightarrow> Some n)" for x
    unfolding f foldl_update_lookup map_add_def
    by (subst copies_lookup) (auto simp: map_of_filter_prefix)
  note none = tree_fs_below[OF assms(2) nd(1) assms(5)]
  have in_dest: "map_of fs' (dest @ q) = map_of fs (source @ q)" for q
    by (simp add: look none split: option.splits)
  have out: "map_of fs' x = map_of fs x" if "\<not> prefix dest x" for x using that by (simp add: look)
  have old: "map_of fs q = Some n \<Longrightarrow> map_of fs' q = Some n" for q n
    using none out by (cases "prefix dest q") (auto simp: prefix_def)
  have "fs_has_dir fs' y" if x: "fs_exists fs' x" "strict_prefix y x" for x y
  proof (cases "prefix dest x")
    case False
    then have "fs_has_dir fs y" using x out assms(2) by (auto simp: tree_fs_def fs_exists_def)
    then show ?thesis using has_dir_mono old by blast
  next
    case True
    then obtain q where q: "x = dest @ q" by (auto simp: prefix_def)
    show ?thesis
    proof (cases "prefix dest y")
      case True
      then obtain r where r: "y = dest @ r" by (auto simp: prefix_def)
      have "map_of fs (source @ r) = Some Dir"
      proof (cases "r = []")
        case False
        have "strict_prefix (source @ r) (source @ q)" using x(2) unfolding q r by (simp add: strict_prefix_def)
        then have "fs_has_dir fs (source @ r)"
          using assms(2) x(1) in_dest[of q] by (auto simp: tree_fs_def fs_exists_def q)
        moreover have "2 \<le> length (source @ r)" using False nd(2) by (cases source; cases r) auto
        ultimately show ?thesis by (auto simp: fs_has_dir_def fs_is_dir_def)
      qed (use assms(3) in \<open>simp add: fs_is_dir_def\<close>)
      then show ?thesis using in_dest[of r] by (simp add: fs_has_dir_def fs_is_dir_def r)
    next
      case False
      then have "strict_prefix y dest"
        using x(2) unfolding q by (metis prefix_order.le_less prefix_same_cases prefixI prefix_order.less_imp_le)
      then have y: "prefix y (butlast dest)"
        by (metis append_butlast_last_id assms(5) le_zero_eq list.size(3) not_numeral_le_zero prefix_snoc strict_prefix_def)
      show ?thesis
      proof (cases "y = butlast dest")
        case True
        then show ?thesis using has_dir_mono[OF old assms(4)] by simp
      next
        case False
        then have "strict_prefix y (butlast dest)" using y by (simp add: strict_prefix_def)
        moreover have "fs_exists fs (butlast dest) \<or> length (butlast dest) = 1"
          using assms(4,5) length_butlast[of dest] by (cases "butlast dest") (auto simp: fs_has_dir_def fs_is_dir_def fs_exists_def)
        moreover have "length (butlast dest) = 1 \<Longrightarrow> y = []"
          using prefix_length_less[OF \<open>strict_prefix y (butlast dest)\<close>] by simp
        ultimately have "fs_has_dir fs y" using assms(2) unfolding tree_fs_def by (auto simp: fs_has_dir_def)
        then show ?thesis using has_dir_mono old by blast
      qed
    qed
  qed
  moreover have "distinct (map fst fs')"
    unfolding f by (rule foldl_update_distinct) (use assms(2) in \<open>simp add: tree_fs_def\<close>)
  ultimately have "tree_fs fs'" unfolding tree_fs_def by blast
  then show ?thesis using in_dest none out by blast
qed

lemma bundle_ok_infer: "infer_bundle fs bundle = Inr b \<Longrightarrow> bundle_ok b"
  using safe_infer_bundle by (simp add: bundle_ok_def)

lemma layout_parent_length: "3 \<le> length (layout_parent base b)"
  by (simp add: layout_parent_def)

lemma migrate_bundle_effect:
  assumes t: "tree_fs (io_files s)" and d: "fs_is_dir (io_files s) bundle"
    and m: "migrate_bundle True base s bundle = Inr s'"
  obtains b dest where "infer_bundle (io_files s) bundle = Inr b" "dest = unique_destination (io_files s) base b bundle"
    "tree_fs (io_files s')" "\<And>q. map_of (io_files s') (dest @ q) = map_of (io_files s) (bundle @ q)"
    "\<And>q. map_of (io_files s) (dest @ q) = None"
    "\<And>x. \<not> prefix dest x \<Longrightarrow> map_of (io_files s') x = map_of (io_files s) x
       \<or> map_of (io_files s) x = None \<and> map_of (io_files s') x = Some Dir \<and> prefix x dest"
proof -
  obtain b where b: "infer_bundle (io_files s) bundle = Inr b"
    using m by (auto simp: migrate_bundle_def bindR_eq_Inr_iff)
  let ?dest = "unique_destination (io_files s) base b bundle"
  obtain name where name: "?dest = layout_parent base b @ [name]" "\<not> fs_exists (io_files s) ?dest"
    using unique_destination_layout[OF bundle_ok_infer[OF b]] by metis
  have l: "2 \<le> length ?dest" using name(1) layout_parent_length[of base b] by simp
  have pp: "path_parent ?dest = butlast ?dest" using l by (simp add: path_parent_def name(1) layout_parent_def)
  obtain fs1 fs2 where f: "fs_mkdirs (io_files s) (butlast ?dest) = Inr fs1" "copytree fs1 bundle ?dest = Inr fs2" "io_files s' = fs2"
    using m b pp by (auto simp: migrate_bundle_def bindR_eq_Inr_iff Let_def)
  from mkdirs_effect[OF f(1) t] have t1: "tree_fs fs1" and dir: "fs_has_dir fs1 (butlast ?dest)"
    and eff: "\<And>q. map_of fs1 q = map_of (io_files s) q
      \<or> map_of (io_files s) q = None \<and> map_of fs1 q = Some Dir \<and> prefix q (butlast ?dest)" by auto
  have np: "\<not> prefix bundle ?dest" using f(2) by (simp add: copytree_def split: if_splits)
  have below: "prefix q ?dest" if "prefix q (butlast ?dest)" for q
    using that prefixeq_butlast[of ?dest] prefix_order.trans by blast
  have src: "map_of fs1 (bundle @ q) = map_of (io_files s) (bundle @ q)" for q
  proof -
    have "\<not> prefix (bundle @ q) (butlast ?dest)" using np below append_prefixD by blast
    then show ?thesis using eff by blast
  qed
  then have d1: "fs_is_dir fs1 bundle" using d src[of "[]"] by (simp add: fs_is_dir_def)
  from copytree_effect[OF f(2) t1 d1 dir l]
  have c: "tree_fs fs2" "\<And>q. map_of fs2 (?dest @ q) = map_of fs1 (bundle @ q)"
    "\<And>x. \<not> prefix ?dest x \<Longrightarrow> map_of fs2 x = map_of fs1 x" by auto
  have e: "map_of (io_files s) (?dest @ q) = None" for q by (rule tree_fs_below[OF t name(2) l])
  have o: "map_of fs2 x = map_of (io_files s) x
       \<or> map_of (io_files s) x = None \<and> map_of fs2 x = Some Dir \<and> prefix x ?dest" if "\<not> prefix ?dest x" for x
    using eff[of x] c(3)[OF that] below by auto
  show thesis
    by (rule that[OF b refl]) (use c src e o f(3) in auto)
qed

text \<open>C4: a migrated bundle is copied completely: every entry below the source is below the
  destination, with the same content, and nothing else changes but for directories that were
  missing above the destination.\<close>

theorem bundle_copied:
  assumes "tree_fs (io_files s)" "is_bundle (io_files s) bundle" "migrate_bundle True base s bundle = Inr s'"
  shows "\<exists>b. infer_bundle (io_files s) bundle = Inr b
    \<and> (let dest = unique_destination (io_files s) base b bundle in
        (\<forall>q. map_of (io_files s') (dest @ q) = map_of (io_files s) (bundle @ q))
        \<and> (\<forall>x. prefix dest x \<or> map_of (io_files s') x = map_of (io_files s) x
             \<or> map_of (io_files s) x = None \<and> map_of (io_files s') x = Some Dir \<and> prefix x dest))"
proof -
  have "fs_is_dir (io_files s) bundle" using assms(2) by (simp add: is_bundle_def)
  from migrate_bundle_effect[OF assms(1) this assms(3)] show ?thesis by (metis (no_types, lifting))
qed

section \<open>The migration as a step relation\<close>

inductive migrates :: "bool \<Rightarrow> path \<Rightarrow> io \<Rightarrow> io \<Rightarrow> bool" for really base s where
  start: "migrates really base s s"
| one_bundle: "migrates really base s s' \<Longrightarrow> is_bundle (io_files s') p \<Longrightarrow> migrate_bundle really base s' p = Inr s''
    \<Longrightarrow> migrates really base s s''"

lemma migrates_foldR:
  "foldR f s' xs = Inr s'' \<Longrightarrow> migrates really base s s'
   \<Longrightarrow> (\<And>x a b. migrates really base s a \<Longrightarrow> f a x = Inr b \<Longrightarrow> migrates really base s b)
   \<Longrightarrow> migrates really base s s''"
  by (induction xs arbitrary: s') (auto simp: bindR_eq_Inr_iff)

lemma migrates_child: "migrates really base s a \<Longrightarrow> migrate_child really base a x = Inr b \<Longrightarrow> migrates really base s b"
  by (auto simp: migrate_child_def intro: migrates.one_bundle split: if_splits)

lemma migrates_path: "migrates really base s a \<Longrightarrow> migrate_path really base a x = Inr b \<Longrightarrow> migrates really base s b"
  by (auto simp: migrate_path_def intro: migrates.one_bundle migrates_foldR migrates_child split: if_splits)

lemma migrate_main_steps:
  "migrate_main apply_flag dry_run base ps s = Inr s' \<Longrightarrow> migrates (apply_flag \<and> \<not> dry_run) base s s'"
  unfolding migrate_main_def by (erule migrates_foldR) (auto intro: migrates.start migrates_path)

lemma migrate_bundle_streams:
  "migrate_bundle really base s p = Inr s' \<Longrightarrow> prefix (io_out s) (io_out s') \<and> io_err s' = io_err s
     \<and> (really \<or> io_files s' = io_files s)"
  by (auto simp: migrate_bundle_def bindR_eq_Inr_iff Let_def split: if_splits)

lemma migrates_streams:
  "migrates really base s s' \<Longrightarrow> prefix (io_out s) (io_out s') \<and> io_err s' = io_err s \<and> (really \<or> io_files s' = io_files s)"
proof (induction rule: migrates.induct)
  case (one_bundle s' p s'')
  note b = migrate_bundle_streams[OF one_bundle(3)]
  have "prefix (io_out s) (io_out s'')" by (rule prefix_order.trans[of _ "io_out s'"]) (use one_bundle b in auto)
  then show ?case using one_bundle b by auto
qed simp

lemma migrates_files:
  assumes "migrates True base s s'" "tree_fs (io_files s)"
  shows "tree_fs (io_files s') \<and> (\<forall>p n. map_of (io_files s) p = Some n \<longrightarrow> map_of (io_files s') p = Some n)
    \<and> (\<forall>p t. map_of (io_files s') p = Some (File t) \<longrightarrow> (\<exists>q. map_of (io_files s) q = Some (File t)))"
  using assms
proof (induction rule: migrates.induct)
  case (one_bundle s1 p s2)
  then have IH: "tree_fs (io_files s1)" "\<And>p n. map_of (io_files s) p = Some n \<Longrightarrow> map_of (io_files s1) p = Some n"
    "\<And>p t. map_of (io_files s1) p = Some (File t) \<Longrightarrow> \<exists>q. map_of (io_files s) q = Some (File t)" by blast+
  have "fs_is_dir (io_files s1) p" using one_bundle(2) by (simp add: is_bundle_def)
  then obtain b dest where
    "infer_bundle (io_files s1) p = Inr b" "dest = unique_destination (io_files s1) base b p"
    and e: "tree_fs (io_files s2)"
    "\<And>q. map_of (io_files s2) (dest @ q) = map_of (io_files s1) (p @ q)"
    "\<And>q. map_of (io_files s1) (dest @ q) = None"
    "\<And>x. \<not> prefix dest x \<Longrightarrow> map_of (io_files s2) x = map_of (io_files s1) x
       \<or> map_of (io_files s1) x = None \<and> map_of (io_files s2) x = Some Dir \<and> prefix x dest"
    using migrate_bundle_effect[OF IH(1) _ one_bundle(3)] by metis
  have keep: "map_of (io_files s1) x = Some n \<Longrightarrow> map_of (io_files s2) x = Some n" for x n
    using e(3) e(4)[of x] by (cases "prefix dest x") (auto simp: prefix_def)
  have "\<exists>q. map_of (io_files s1) q = Some (File t)" if "map_of (io_files s2) x = Some (File t)" for x t
  proof (cases "prefix dest x")
    case True
    then obtain q where "x = dest @ q" by (auto simp: prefix_def)
    then show ?thesis using e(2) that by metis
  next
    case False
    then show ?thesis using e(4)[OF False] that by auto
  qed
  then show ?case using e(1) keep IH by metis
qed auto

text \<open>C5: migrating changes and removes nothing: whatever existed before is still there with the same
  content, every file afterwards has the content of a file from before, the file system stays a
  tree, and without \<^verbatim>\<open>--apply\<close>, or with \<^verbatim>\<open>--dry-run\<close>, nothing is written at all.\<close>

theorem migration_keeps_files:
  assumes "tree_fs (io_files s)" "migrate_main apply_flag dry_run base ps s = Inr s'"
  shows "tree_fs (io_files s') \<and> (\<forall>p n. map_of (io_files s) p = Some n \<longrightarrow> map_of (io_files s') p = Some n)
    \<and> (\<forall>p t. map_of (io_files s') p = Some (File t) \<longrightarrow> (\<exists>q. map_of (io_files s) q = Some (File t)))
    \<and> (\<not> apply_flag \<or> dry_run \<longrightarrow> io_files s' = io_files s)
    \<and> prefix (io_out s) (io_out s') \<and> io_err s' = io_err s"
proof (cases "apply_flag \<and> \<not> dry_run")
  case True
  have "migrates True base s s'" using migrate_main_steps[OF assms(2)] True by simp
  from migrates_files[OF this assms(1)] migrates_streams[OF this] True show ?thesis by blast
next
  case False
  then show ?thesis using migrates_streams[OF migrate_main_steps[OF assms(2)]] assms(1) by auto
qed

text \<open>A flat bundle, for the witnesses.\<close>

definition sample_bundle_io :: io where
  "sample_bundle_io = \<lparr>io_files = [([''r''], Dir), ([''r'', ''ghalo.csv''], File ''x''),
      ([''r'', ''result-metadata.txt''], File ''rocm_version=6.2'')], io_out = [], io_err = []\<rparr>"

lemma sample_bundle_tree: "tree_fs (io_files sample_bundle_io)"
  by (auto simp: tree_fs_def sample_bundle_io_def fs_exists_def fs_has_dir_def fs_is_dir_def strict_prefix_def prefix_Cons
    split: if_splits)

theorem migration_keeps_files_witness:
  "\<exists>s'. migrate_main True False [''b''] [[''r'']] sample_bundle_io = Inr s'
    \<and> map_of (io_files s') [''r'', ''ghalo.csv''] = Some (File ''x'')"
proof -
  let ?m = "migrate_main True False [''b''] [[''r'']] sample_bundle_io"
  have "\<not> isl ?m" by code_simp
  then obtain s' where m: "?m = Inr s'" by (cases ?m) auto
  have "map_of (io_files sample_bundle_io) [''r'', ''ghalo.csv''] = Some (File ''x'')" by (simp add: sample_bundle_io_def)
  then have "map_of (io_files s') [''r'', ''ghalo.csv''] = Some (File ''x'')"
    using migration_keeps_files[OF sample_bundle_tree m] by blast
  with m show ?thesis by blast
qed

theorem bundle_copied_witness:
  "\<exists>s' b. migrate_bundle True [''b''] sample_bundle_io [''r''] = Inr s'
    \<and> map_of (io_files s') (unique_destination (io_files sample_bundle_io) [''b''] b [''r''] @ [''ghalo.csv'']) = Some (File ''x'')"
proof -
  let ?m = "migrate_bundle True [''b''] sample_bundle_io [''r'']"
  have "\<not> isl ?m \<and> is_bundle (io_files sample_bundle_io) [''r'']" by code_simp
  then obtain s' where m: "?m = Inr s'" and b: "is_bundle (io_files sample_bundle_io) [''r'']" by (cases ?m) auto
  have "map_of (io_files sample_bundle_io) ([''r''] @ [''ghalo.csv'']) = Some (File ''x'')" by (simp add: sample_bundle_io_def)
  moreover from bundle_copied[OF sample_bundle_tree b m] obtain bi where
    "\<forall>q. map_of (io_files s') (unique_destination (io_files sample_bundle_io) [''b''] bi [''r''] @ q)
       = map_of (io_files sample_bundle_io) ([''r''] @ q)" unfolding Let_def by blast
  ultimately show ?thesis using m by (intro exI[of _ s'] exI[of _ bi]) (simp only: simp_thms)
qed

inductive_cases migratesE: "migrates really base s s'"

end
