(* ===== verification/Spec2Isabelle.thy ===== *)
theory Spec2Isabelle
  imports Reporting RcclCompare Migration
begin

text \<open>
  gHALO measures halo exchanges; its C++ programs write result directories (\<^verbatim>\<open>ghalo.json\<close> or
  \<^verbatim>\<open>ghalo.csv\<close> with metadata files beside it).  This development models the Python tools that
  read them, \<^verbatim>\<open>tools/*.py\<close>.  Each tool is a function from the files and its parsed arguments to
  an outcome: an exit code with the new files and streams, or an exception.

  Python.  \<^bold>\<open>Prelude\<close>: the result type \<^verbatim>\<open>'a res\<close> (an exception or a value), the dialect of
  loops over it (\<^verbatim>\<open>bindR\<close>, \<^verbatim>\<open>traverse\<close>, \<^verbatim>\<open>foldR\<close>), stable sorts with keys that may raise.
  \<^bold>\<open>Binary64\<close>: floats as rationals with infinities and NaN, every operation rounded to nearest
  even; \<^verbatim>\<open>to_float_fast\<close> is the code equation that keeps kernel evaluation quick.
  \<^bold>\<open>PyStats\<close>: the statistics module.  \<^bold>\<open>PyText\<close>, \<^bold>\<open>NumText\<close>: strings, reading and
  printing numbers.  \<^bold>\<open>PyDict\<close>: dictionaries as association lists in insertion order, grouping
  and counting.  \<^bold>\<open>PyJson\<close>, \<^bold>\<open>PyJsonText\<close>, \<^bold>\<open>PyCsv\<close>: the two file formats.
  \<^bold>\<open>PyPath\<close>: paths as lists of parts, a file system as an association list of entries, the
  state \<^verbatim>\<open>io\<close> of files and output streams.

  \<^verbatim>\<open>ghalo_analyze.py\<close>.  \<^bold>\<open>PathMeta\<close>: what path names and metadata files say.
  \<^bold>\<open>RunData\<close>: \<^verbatim>\<open>Run\<close> and \<^verbatim>\<open>RunResult\<close> with their properties.  \<^bold>\<open>Loading\<close>: readers and
  validation.  \<^bold>\<open>Analysis\<close>: order, rates, summaries, comparison.  \<^bold>\<open>Rendering\<close>: tables.
  \<^bold>\<open>Labels\<close>, \<^bold>\<open>Scaling\<close>, \<^bold>\<open>Plotting\<close>: labels, ratio tables and ticks, figures as lists of
  drawing requests.  \<^bold>\<open>Aggregation\<close>: groups and their statistics.  \<^bold>\<open>Reporting\<close>: the commands,
  the report directory and \<^verbatim>\<open>main\<close>.

  \<^verbatim>\<open>analyze_iteration_stalls.py\<close>.  \<^bold>\<open>StallRecords\<close>: the timing files.
  \<^bold>\<open>StallAnalysis\<close>: samples, phases and ranks of a case.  \<^bold>\<open>StallReport\<close>: a case from its files
  to the outputs, and \<^verbatim>\<open>main\<close>.  \<^verbatim>\<open>compare_rccl_versions.py\<close>: \<^bold>\<open>RcclCompare\<close>, which calls
  the stall analysis.  \<^verbatim>\<open>migrate_results.py\<close>: \<^bold>\<open>Migration\<close>, whose loops over bundles are also a
  step relation, \<^verbatim>\<open>migrates\<close>; its invariants are proved by rule induction and carried to
  \<^verbatim>\<open>migrate_main\<close>.  Functions keep the names of the source; a name two tools define differently
  carries the prefix of its tool.

  Interfaces.  The locales state what one part relies on in another and are interpreted on the
  model: dictionaries built by a loop (PyDict), rounding (Binary64), loaders (Loading), namers that
  turn any text into a safe file name (PathMeta: the slugs of the report, the three uses of
  \<^verbatim>\<open>sanitize\<close> in the migration).

  What is shown.  Loading: only validated runs reach a command, and which fault is reported.  Tables:
  comparisons and groups are complete, runs are in the order of the columns of the output key, CSV is
  read back, writing changes only the named file and missing directories above it, the report stays
  in its directory.  Arithmetic: differences, percentages and ratios of a comparison are accurate to
  a few units in the last place, the rates of a result are defined exactly below the overflow
  threshold of \<^verbatim>\<open>float()\<close>, the five numbers of a size are in order in binary64, and thresholds such
  as nine tenths of the iterations are exact for up to \<open>2 ^ 48\<close> of them.  Stalls: the loops compute
  maximal blocks, the counts of a case agree, each event has the longest phase of its iteration, the
  frequency tables of ranks count every slow rank.  The status of the process is characterised for
  every command.
  Stacks: exactly one validated summary for each version.  Migration: copies are complete, nothing
  existing changes, and the analysis reads the layout back (below, across the two tools).  Bounds such
  as \<open>2 ^ 46\<close>, \<open>2 ^ 48\<close> and \<open>2 ^ 50\<close> are far above any count of iterations or runs; they keep
  products exact integers of binary64; \<open>2 ^ -100\<close> to \<open>2 ^ 100\<close> seconds covers every measured time.  The searches that print the shortest digits of a float take
  fuel for the 17 digits that always suffice; every other loop has a measure.

  Parameters, because their code is not in the repository: the drawing library and the text of the
  image it saves, resolving of links, permissions, the clock, git, and SHA-256.

  Not modelled.  The declarations of the command lines (parsed arguments are records here); the
  C++ and HIP programs, scripts and tests; characters outside Latin-1; the text of decoding errors.
  Files written before an uncaught exception are not part of an outcome.  Paths are lexical: a part
  \<^verbatim>\<open>..\<close> is an ordinary name.  The sign of a zero is not represented.  \<^verbatim>\<open>sum\<close> is the plain
  left fold of Python up to 3.11 (3.12 compensates sums of floats), and a sort with a NaN among its
  keys puts it last, where Python leaves an order that depends on the input.
\<close>

section \<open>Migrated results are recognised by the analysis\<close>

text \<open>The name of a copy is a run name, when the source name has a time stamp.\<close>

lemma destination_stem_run_name:
  "split_flat_name (path_name source) = (ts, fb, fl) \<Longrightarrow> ts \<noteq> ''unknown''
   \<Longrightarrow> destination_stem source backend lbl = run_name ts backend (CHR ''_'') lbl"
  by (simp add: destination_stem_def run_name_def)

lemma numbered_run_name:
  "numbered_name (run_name ts backend sep lbl) k = run_name ts backend sep (lbl @ ''_'' @ string_of_int (int k))"
  by (simp add: numbered_name_def run_name_def)

lemma index_of_append: "x \<notin> set xs \<Longrightarrow> index_of x (xs @ x # ys) = Some (length xs)"
  by (induction xs) auto

lemma map_of_set_if: "map_of (set_if k v d) j = (if k = j \<and> v \<noteq> [] then Some v else map_of d j)"
  by (simp add: set_if_def update_conv')

lemma infer_layout_metadata:
  assumes base: "''results'' \<notin> set base" and v: "is_version (''rocm-'' @ v)" and sys: "sys \<noteq> ''.''"
    and name: "split_run_name name = [(''timestamp'', ts), (''backend'', b), (''label'', l)]" and b: "b \<noteq> []"
  shows "let md = infer_path_metadata (base @ [''results'', sys, ''rocm-'' @ v, cat, name]) in
    map_of md ''system'' = Some sys \<and> map_of md ''rocm_version'' = Some (''rocm-'' @ v) \<and> map_of md ''suite'' = Some cat
    \<and> map_of md ''timestamp'' = Some ts \<and> map_of md ''backend'' = Some b \<and> map_of md ''label'' = Some l"
proof -
  let ?p = "base @ [''results'', sys, ''rocm-'' @ v, cat, name]"
  have i: "index_of ''results'' ?p = Some (length base)" using index_of_append[OF base] by simp
  have "relative_parts ?p = [''rocm-'' @ v, cat, name]" using i by (simp add: relative_parts_def)
  moreover have "path_system_entry ?p = [(''system'', sys)]" using i by (simp add: path_system_entry_def nth_append)
  ultimately show ?thesis using v name b
    by (simp add: infer_path_metadata_def Let_def dict_get_def map_of_set_if update_conv' if_distrib[of map_of] if_distribR)
qed

lemma destination_name:
  assumes ok: "bundle_ok b" and ts: "split_flat_name (path_name source) = (ts, fb, fl)" "ts \<noteq> ''unknown''"
  shows "\<exists>suffix. unique_destination fs base b source
      = layout_parent base b @ [run_name ts (b_backend b) (CHR ''_'') (b_label b @ suffix)]
    \<and> (if fs_exists fs (layout_parent base b @ [run_name ts (b_backend b) (CHR ''_'') (b_label b)])
       then \<exists>k \<ge> 2. suffix = ''_'' @ string_of_int (int k) else suffix = [])"
proof -
  let ?stem = "destination_stem source (b_backend b) (b_label b)"
  have stem: "?stem = run_name ts (b_backend b) (CHR ''_'') (b_label b)" by (rule destination_stem_run_name[OF ts])
  have plain: "child p ?stem = p @ [?stem]" for p using destination_stem_plain[OF ok, of "[]"] by (simp add: child_plain)
  note u = unique_destination_def[of fs base b source] destination_parent_layout[OF ok] Let_def
  show ?thesis
  proof (cases "fs_exists fs (layout_parent base b @ [?stem])")
    case False
    then show ?thesis unfolding u plain by (simp add: stem)
  next
    case True
    obtain k where k: "k \<ge> 2" "first_free fs (layout_parent base b) ?stem 2 = child (layout_parent base b) (numbered_name ?stem k)"
      using first_free_spec[of 2 fs "layout_parent base b" ?stem] by blast
    have "unique_destination fs base b source = layout_parent base b @ [numbered_name ?stem k]"
      using True k(2) unfolding u plain child_numbered[OF ok] by simp
    then show ?thesis using True k(1) unfolding stem numbered_run_name
      by (intro exI[of _ "''_'' @ string_of_int (int k)"]) auto
  qed
qed

text \<open>C8: a migrated bundle is found again by the analysis, when its name starts with a time stamp, its
  backend is one the analysis knows, it has a ROCm version that reads as one, its system is not a
  dot and \<^verbatim>\<open>results\<close> occurs in the root directory only where the migration adds it: the path of
  the copy is read back as the system, version, category, backend and time stamp the migration
  sorted it by, and as its label, unchanged when the plain name was free, and otherwise followed by
  an underscore and a number from 2 on.\<close>

theorem migrated_layout_recognised:
  assumes "infer_bundle fs bundle = Inr b" "split_flat_name (path_name bundle) = (ts, fb, fl)" "ts \<noteq> ''unknown''"
    "''results'' \<notin> set base" "b_system b \<noteq> ''.''" "b_backend b \<in> set KNOWN_BACKENDS" "is_version (''rocm-'' @ b_rocm b)"
  shows "\<exists>suffix. (let md = infer_path_metadata (unique_destination fs base b bundle) in
      map_of md ''system'' = Some (b_system b) \<and> map_of md ''rocm_version'' = Some (''rocm-'' @ b_rocm b)
      \<and> map_of md ''suite'' = Some (b_category b) \<and> map_of md ''timestamp'' = Some ts
      \<and> map_of md ''backend'' = Some (b_backend b) \<and> map_of md ''label'' = Some (b_label b @ suffix))
    \<and> (if fs_exists fs (base @ [''results'', b_system b, ''rocm-'' @ b_rocm b, b_category b,
           ts @ ''_'' @ b_backend b @ ''_'' @ b_label b])
       then \<exists>k \<ge> 2. suffix = ''_'' @ string_of_int (int k) else suffix = [])"
proof -
  have ok: "bundle_ok b" by (rule bundle_ok_infer[OF assms(1)])
  then have lf: "LF \<notin> set (b_label b)" "b_backend b \<noteq> []"
    using slug_char_no_space[of LF] by (auto simp: bundle_ok_def safe_name_def list_all_iff is_space_def code_def)
  obtain suffix where n: "unique_destination fs base b bundle
      = layout_parent base b @ [run_name ts (b_backend b) (CHR ''_'') (b_label b @ suffix)]"
    and suf: "if fs_exists fs (layout_parent base b @ [run_name ts (b_backend b) (CHR ''_'') (b_label b)])
       then \<exists>k \<ge> 2. suffix = ''_'' @ string_of_int (int k) else suffix = []"
    using destination_name[OF ok assms(2,3)] by metis
  have "LF \<notin> set (string_of_int (int k))" for k
    using digits_of_decimal[of "int k" LF] by (auto simp: string_of_int_def is_decimal_def code_def)
  then have "LF \<notin> set suffix" using suf by (auto split: if_splits)
  have t: "is_timestamp ts" using split_flat_name_timestamp[OF assms(2)] assms(3) by blast
  have "split_run_name (run_name ts (b_backend b) (CHR ''_'') (b_label b @ suffix))
      = [(''timestamp'', ts), (''backend'', b_backend b), (''label'', b_label b @ suffix)]"
    using t assms(6) lf \<open>LF \<notin> set suffix\<close> by (intro split_run_name_named) auto
  note md = infer_layout_metadata[OF assms(4,7,5) this lf(2), of "b_category b"]
  have p: "layout_parent base b @ [x] = base @ [''results'', b_system b, ''rocm-'' @ b_rocm b, b_category b, x]" for x
    using assms(5) by (simp add: layout_parent_def)
  show ?thesis using md suf unfolding n p run_name_def by (intro exI[of _ suffix]) simp
qed

definition flat_bundle :: path where
  "flat_bundle = [''20250101T000000Z_rccl_big'']"

definition flat_bundle_fs :: fs where
  "flat_bundle_fs = [(flat_bundle, Dir), (flat_bundle @ [''ghalo.csv''], File ''x''),
     (flat_bundle @ [''result-metadata.txt''], File ''rocm_version=6.2''),
     (flat_bundle @ [''system-resolution.txt''], File ''active_system=borg'')]"

theorem migrated_layout_recognised_witness:
  "\<exists>b. infer_bundle flat_bundle_fs flat_bundle = Inr b \<and> (let md = infer_path_metadata (unique_destination flat_bundle_fs [] b flat_bundle) in
    map_of md ''system'' = Some (b_system b) \<and> map_of md ''backend'' = Some (b_backend b)
    \<and> map_of md ''label'' = Some (b_label b))"
proof -
  let ?i = "infer_bundle flat_bundle_fs flat_bundle"
  have e: "case ?i of Inr b \<Rightarrow> b_system b \<noteq> ''.'' \<and> b_backend b \<in> set KNOWN_BACKENDS \<and> is_version (''rocm-'' @ b_rocm b)
       \<and> \<not> fs_exists flat_bundle_fs ([] @ [''results'', b_system b, ''rocm-'' @ b_rocm b, b_category b,
           ''20250101T000000Z'' @ ''_'' @ b_backend b @ ''_'' @ b_label b])
     | Inl _ \<Rightarrow> False" by code_simp
  then obtain b where b: "?i = Inr b" "b_system b \<noteq> ''.''" "b_backend b \<in> set KNOWN_BACKENDS" "is_version (''rocm-'' @ b_rocm b)"
    "\<not> fs_exists flat_bundle_fs ([] @ [''results'', b_system b, ''rocm-'' @ b_rocm b, b_category b,
           ''20250101T000000Z'' @ ''_'' @ b_backend b @ ''_'' @ b_label b])"
    by (auto split: sum.splits)
  have s: "split_flat_name (path_name flat_bundle) = (''20250101T000000Z'', ''rccl'', ''big'')" by code_simp
  show ?thesis
    using migrated_layout_recognised[OF b(1) s _ _ b(2-4), of "[]"] b(1,5) unfolding Let_def by auto
qed

text \<open>A bundle without a version is sorted under \<^verbatim>\<open>rocm-none\<close>, which the analysis does not take
  for a version: it reads neither the version nor the category back, nor the backend.\<close>

lemma rocm_none_not_recognised:
  "infer_path_metadata [''results'', ''borg'', ''rocm-none'', ''repeatability'', ''20250101T000000Z_rccl_big'']
    = [(''system'', ''borg'')]"
  by code_simp

end
